theory Spec2Isabelle
  imports Complex_Main
begin

section \<open>Python values used by RR_weak_mutation.py\<close>

text \<open>
  Sequences are Python strings, modelled as \<open>string\<close>; an allele is a one-character
  string, modelled as a \<open>char\<close>. Exceptions are values of \<open>error\<close>; a failing
  \<open>assert\<close> is \<open>AssertionError\<close>. Every exception aborts the run.
\<close>

datatype error = AssertionError | IndexError | ValueError | ZeroDivisionError | AttributeError

definition py_getitem :: "'a list \<Rightarrow> int \<Rightarrow> error + 'a" where
  \<comment> \<open>\<open>s[i]\<close>: a negative index counts from the end, out of range raises IndexError\<close>
  "py_getitem s i =
     (if 0 \<le> i \<and> i < int (length s) then Inr (s ! nat i)
      else if i < 0 \<and> - int (length s) \<le> i then Inr (s ! nat (int (length s) + i))
      else Inl IndexError)"

definition py_slice_upto :: "'a list \<Rightarrow> int \<Rightarrow> 'a list" where
  \<comment> \<open>\<open>s[:i]\<close>: bounds are clipped, never raises\<close>
  "py_slice_upto s i = (if i < 0 then take (nat (int (length s) + i)) s else take (nat i) s)"

definition py_slice_from :: "'a list \<Rightarrow> int \<Rightarrow> 'a list" where
  \<comment> \<open>\<open>s[i:]\<close>\<close>
  "py_slice_from s i = (if i < 0 then drop (nat (int (length s) + i)) s else drop (nat i) s)"

definition py_int :: "char \<Rightarrow> error + int" where
  \<comment> \<open>\<open>int(c)\<close> of a one-character string: a decimal digit, else ValueError\<close>
  "py_int c = (if c \<in> set ''0123456789'' then Inr (int (of_char c) - 48) else Inl ValueError)"

definition digit_char :: "nat \<Rightarrow> char" where
  "digit_char n = ''0123456789'' ! n"

fun str_nat :: "nat \<Rightarrow> string" where
  "str_nat n = (if n < 10 then [digit_char n] else str_nat (n div 10) @ [digit_char (n mod 10)])"

declare str_nat.simps [simp del]

definition py_str :: "int \<Rightarrow> string" where
  \<comment> \<open>\<open>str(i)\<close> of an integer\<close>
  "py_str i = (if i < 0 then CHR ''-'' # str_nat (nat (- i)) else str_nat (nat i))"

section \<open>The two module-level dictionaries and the random source\<close>

text \<open>
  \<open>viability_dict\<close> and \<open>nu_dict\<close> are the module's globals. The generator
  \<open>numpy.random\<close> is a tape of draws with a read position: draw number \<open>k\<close> gives
  \<open>rnd_floats w k\<close> to a call of \<open>rnd.random()\<close> and \<open>rnd_ints w k\<close> to a call of
  \<open>rnd.randint\<close>, which reduces it into the requested range; each call consumes one
  draw. The distribution of the draws is outside this model. Floats are modelled as
  reals: the program only compares them, except for the quotient \<open>nu\<close>.
\<close>

record world =
  viability_dict :: "string \<rightharpoonup> bool"
  nu_dict :: "string \<rightharpoonup> real"
  rnd_floats :: "nat \<Rightarrow> real"
  rnd_ints :: "nat \<Rightarrow> nat"
  rnd_pos :: nat

definition rnd_random :: "world \<Rightarrow> real \<times> world" where
  "rnd_random w = (rnd_floats w (rnd_pos w), w\<lparr>rnd_pos := Suc (rnd_pos w)\<rparr>)"

definition rnd_randint :: "int \<Rightarrow> int \<Rightarrow> world \<Rightarrow> error + int \<times> world" where
  \<comment> \<open>\<open>rnd.randint(low, high)\<close>: a value of \<open>[low, high)\<close>, ValueError when that is empty\<close>
  "rnd_randint low high w =
     (if high \<le> low then Inl ValueError
      else Inr (low + int (rnd_ints w (rnd_pos w) mod nat (high - low)),
                w\<lparr>rnd_pos := Suc (rnd_pos w)\<rparr>))"

section \<open>class Genotype\<close>

record genotype =
  g_seq :: string
  g_L :: nat
  g_p :: real
  g_viable :: bool
  g_nu :: "real option"  \<comment> \<open>the attribute \<open>nu\<close> exists only after \<open>get_robustness\<close>\<close>

definition get_viability :: "string \<Rightarrow> real \<Rightarrow> world \<Rightarrow> bool \<times> world" where
  \<comment> \<open>reads \<open>self.seq\<close> and \<open>self.p\<close>; the boolean is what is stored in \<open>self.viable\<close>\<close>
  "get_viability seq p w =
     (case viability_dict w seq of
        Some v \<Rightarrow> (v, w)
      | None \<Rightarrow>
          (let (rand, w1) = rnd_random w;
               viable = (if rand < p then True else False)
           in (viable, w1\<lparr>viability_dict := (viability_dict w1)(seq \<mapsto> viable)\<rparr>)))"

definition Genotype_init :: "string \<Rightarrow> real \<Rightarrow> world \<Rightarrow> error + genotype \<times> world" where
  "Genotype_init seq p w =
     (if \<not> p \<ge> 0 then Inl AssertionError
      else if \<not> p \<le> 1 then Inl AssertionError
      else (let (v, w1) = get_viability seq p w
            in Inr (\<lparr>g_seq = seq, g_L = length seq, g_p = p, g_viable = v, g_nu = None\<rparr>, w1)))"

definition make_viable :: "string \<Rightarrow> real \<Rightarrow> world \<Rightarrow> error + genotype \<times> world" where
  "make_viable seq p w =
     (case Genotype_init seq p w of
        Inl e \<Rightarrow> Inl e
      | Inr (genotype, w1) \<Rightarrow>
          if \<not> g_viable genotype
          then Inr (genotype\<lparr>g_viable := True\<rparr>,
                    w1\<lparr>viability_dict := (viability_dict w1)(seq \<mapsto> True)\<rparr>)
          else Inr (genotype, w1))"

fun mutate_sites :: "string \<Rightarrow> int list \<Rightarrow> error + string" where
  "mutate_sites seq [] = Inr seq"
| "mutate_sites seq (i # site) =
     (case py_getitem seq i of
        Inl e \<Rightarrow> Inl e
      | Inr c \<Rightarrow>
          (case py_int c of
             Inl e \<Rightarrow> Inl e
           | Inr d \<Rightarrow>
               mutate_sites (py_slice_upto seq i @ py_str (abs (d - 1)) @ py_slice_from seq (i + 1))
                 site))"

datatype site_arg = Site int | Sites "int list"

fun mutate :: "string \<Rightarrow> site_arg \<Rightarrow> error + string" where
  "mutate seq (Site site) = mutate_sites seq [site]"
| "mutate seq (Sites site) = mutate_sites seq site"

definition mutate_random :: "string \<Rightarrow> world \<Rightarrow> error + string \<times> world" where
  "mutate_random seq w =
     (case rnd_randint 0 (int (length seq)) w of
        Inl e \<Rightarrow> Inl e
      | Inr (site, w1) \<Rightarrow>
          (case mutate seq (Site site) of Inl e \<Rightarrow> Inl e | Inr m \<Rightarrow> Inr (m, w1)))"

fun dist_loop :: "(char \<times> char) list \<Rightarrow> nat \<Rightarrow> nat" where
  "dist_loop [] ndiffs = ndiffs"
| "dist_loop ((ch1, ch2) # rest) ndiffs =
     dist_loop rest (if ch1 \<noteq> ch2 then ndiffs + 1 else ndiffs)"

definition Genotype_dist :: "string \<Rightarrow> string \<Rightarrow> error + nat" where
  \<comment> \<open>the only assertion, \<open>type(seqA) == type(seqB)\<close>, holds of any two strings\<close>
  "Genotype_dist seqA seqB = Inr (dist_loop (zip seqA seqB) 0)"

record diverged =
  seq1_alleles :: string
  seq2_alleles :: string
  sites :: "nat list"

fun diverged_loop :: "string \<Rightarrow> string \<Rightarrow> nat list \<Rightarrow> diverged \<Rightarrow> diverged" where
  "diverged_loop seq1 seq2 [] d = d"
| "diverged_loop seq1 seq2 (i # rest) d =
     diverged_loop seq1 seq2 rest
       (if seq1 ! i \<noteq> seq2 ! i
        then \<lparr>seq1_alleles = seq1_alleles d @ [seq1 ! i],
              seq2_alleles = seq2_alleles d @ [seq2 ! i],
              sites = sites d @ [i]\<rparr>
        else d)"

definition get_diverged_sites :: "string \<Rightarrow> string \<Rightarrow> error + diverged" where
  \<comment> \<open>after the assertion every \<open>i\<close> of \<open>range(L)\<close> is in range of both strings\<close>
  "get_diverged_sites seq1 seq2 =
     (let L = length seq1
      in if length seq2 \<noteq> L then Inl AssertionError
         else Inr (diverged_loop seq1 seq2 [0..<L]
                     \<lparr>seq1_alleles = [], seq2_alleles = [], sites = []\<rparr>))"

fun introgress_loop :: "string \<Rightarrow> nat list \<Rightarrow> string list \<Rightarrow> error + string list" where
  "introgress_loop recipient [] introgressions = Inr introgressions"
| "introgress_loop recipient (i # rest) introgressions =
     (case mutate recipient (Site (int i)) of
        Inl e \<Rightarrow> Inl e
      | Inr m \<Rightarrow> introgress_loop recipient rest (introgressions @ [m]))"

definition introgress :: "string \<Rightarrow> string \<Rightarrow> error + string list" where
  "introgress recipient donor =
     (let L = length recipient
      in if length donor \<noteq> L then Inl AssertionError
         else (case get_diverged_sites recipient donor of
                 Inl e \<Rightarrow> Inl e
               | Inr d \<Rightarrow>
                   if length (sites d) > 0 then introgress_loop recipient (sites d) []
                   else Inr []))"

fun get_IIs_loop ::
  "genotype \<Rightarrow> string list \<Rightarrow> (nat \<rightharpoonup> char) \<Rightarrow> world \<Rightarrow> error + (nat \<rightharpoonup> char) \<times> world" where
  "get_IIs_loop self [] inviable w = Inr (inviable, w)"
| "get_IIs_loop self (i # rest) inviable w =
     (case Genotype_init i (g_p self) w of
        Inl e \<Rightarrow> Inl e
      | Inr (seq, w1) \<Rightarrow>
          if \<not> g_viable seq
          then (case get_diverged_sites (g_seq self) i of
                  Inl e \<Rightarrow> Inl e
                | Inr d \<Rightarrow>
                    (case sites d of
                       [] \<Rightarrow> Inl IndexError
                     | s # _ \<Rightarrow>
                         (case seq2_alleles d of
                            [] \<Rightarrow> Inl IndexError
                          | a # _ \<Rightarrow> get_IIs_loop self rest (inviable(s \<mapsto> a)) w1)))
          else get_IIs_loop self rest inviable w1)"

definition get_IIs :: "genotype \<Rightarrow> genotype \<Rightarrow> world \<Rightarrow> error + (nat \<rightharpoonup> char) \<times> world" where
  "get_IIs self donor w =
     (if g_p self \<noteq> g_p donor then Inl AssertionError
      else if g_L self \<noteq> g_L donor then Inl AssertionError
      else if \<not> g_viable self then Inl AssertionError
      else if \<not> g_viable donor then Inl AssertionError
      else (case introgress (g_seq self) (g_seq donor) of
              Inl e \<Rightarrow> Inl e
            | Inr introgressions \<Rightarrow> get_IIs_loop self introgressions Map.empty w))"

fun viable_neighbors_loop ::
  "genotype \<Rightarrow> nat list \<Rightarrow> nat list \<Rightarrow> world \<Rightarrow> error + nat list \<times> world" where
  "viable_neighbors_loop self [] viable w = Inr (viable, w)"
| "viable_neighbors_loop self (i # rest) viable w =
     (case mutate (g_seq self) (Site (int i)) of
        Inl e \<Rightarrow> Inl e
      | Inr m \<Rightarrow>
          (case Genotype_init m (g_p self) w of
             Inl e \<Rightarrow> Inl e
           | Inr (mut, w1) \<Rightarrow>
               viable_neighbors_loop self rest (if g_viable mut then viable @ [i] else viable) w1))"

definition get_viable_neighbors :: "genotype \<Rightarrow> world \<Rightarrow> error + nat list \<times> world" where
  "get_viable_neighbors self w = viable_neighbors_loop self [0..<g_L self] [] w"

definition get_robustness :: "genotype \<Rightarrow> world \<Rightarrow> error + genotype \<times> world" where
  "get_robustness self w =
     (case nu_dict w (g_seq self) of
        Some v \<Rightarrow> Inr (self\<lparr>g_nu := Some v\<rparr>, w)
      | None \<Rightarrow>
          (case get_viable_neighbors self w of
             Inl e \<Rightarrow> Inl e
           | Inr (viable, w1) \<Rightarrow>
               if g_L self = 0 then Inl ZeroDivisionError
               else (let nu = real (length viable) / real (g_L self)
                     in Inr (self\<lparr>g_nu := Some nu\<rparr>,
                             w1\<lparr>nu_dict := (nu_dict w1)(g_seq self \<mapsto> nu)\<rparr>))))"

section \<open>class Population\<close>

record pop_snapshot =
  snap_seq :: string
  snap_dist :: nat
  snap_nu :: real

record population =
  pop_ancestor :: genotype
  pop_current :: genotype
  pop_p :: real
  pop_n_steps :: nat
  pop_dist :: nat
  pop_history :: "nat \<rightharpoonup> pop_snapshot"

text \<open>
  Records are values, so \<open>deepcopy\<close> is the identity. The program never updates a
  dictionary or a genotype that a history entry or another object still refers to,
  except \<open>ancestor.get_robustness()\<close> in \<open>Population.__init__\<close>, whose effect on the
  caller's object is the \<open>g_nu\<close> of the stored ancestor.
\<close>

definition Population_init :: "genotype \<Rightarrow> world \<Rightarrow> error + population \<times> world" where
  "Population_init ancestor w =
     (if \<not> g_viable ancestor then Inl AssertionError
      else (case get_robustness ancestor w of
              Inl e \<Rightarrow> Inl e
            | Inr (anc, w1) \<Rightarrow>
                (case g_nu anc of
                   None \<Rightarrow> Inl AttributeError
                 | Some nu \<Rightarrow>
                     Inr (\<lparr>pop_ancestor = anc, pop_current = anc, pop_p = g_p anc,
                           pop_n_steps = 0, pop_dist = 0,
                           pop_history = [0 \<mapsto> \<lparr>snap_seq = g_seq anc, snap_dist = 0, snap_nu = nu\<rparr>]\<rparr>,
                          w1))))"

text \<open>
  The \<open>while not found\<close> loop of \<open>Population.substitute\<close>. In the myopic regime it
  has no bound, so the loop is a partial function: \<open>None\<close> is a run that never leaves it.
\<close>

partial_function (option) substitute_loop ::
  "bool \<Rightarrow> population \<Rightarrow> world \<Rightarrow> (error + population \<times> world) option" where
  "substitute_loop blind self w =
     (case mutate_random (g_seq (pop_current self)) w of
        Inl e \<Rightarrow> Some (Inl e)
      | Inr (m, w1) \<Rightarrow>
          (case Genotype_init m (pop_p self) w1 of
             Inl e \<Rightarrow> Some (Inl e)
           | Inr (mut, w2) \<Rightarrow>
               if g_viable mut then Some (Inr (self\<lparr>pop_current := mut\<rparr>, w2))
               else if blind then Some (Inr (self, w2))
               else substitute_loop blind self w2))"

declare substitute_loop.simps [code]

definition substitute_record :: "population \<Rightarrow> world \<Rightarrow> error + population \<times> world" where
  \<comment> \<open>the four statements of \<open>Population.substitute\<close> after the loop\<close>
  "substitute_record self w =
     (case get_robustness (pop_current self) w of
        Inl e \<Rightarrow> Inl e
      | Inr (cur, w1) \<Rightarrow>
          (case Genotype_dist (g_seq cur) (g_seq (pop_ancestor self)) of
             Inl e \<Rightarrow> Inl e
           | Inr d \<Rightarrow>
               (case g_nu cur of
                  None \<Rightarrow> Inl AttributeError
                | Some nu \<Rightarrow>
                    (let n = pop_n_steps self + 1
                     in Inr (self\<lparr>pop_current := cur, pop_n_steps := n, pop_dist := d,
                               pop_history := (pop_history self)
                                 (n \<mapsto> \<lparr>snap_seq = g_seq cur, snap_dist = d, snap_nu = nu\<rparr>)\<rparr>,
                             w1)))))"

definition Population_substitute ::
  "bool \<Rightarrow> population \<Rightarrow> world \<Rightarrow> (error + population \<times> world) option" where
  "Population_substitute blind self w =
     (case substitute_loop blind self w of
        None \<Rightarrow> None
      | Some (Inl e) \<Rightarrow> Some (Inl e)
      | Some (Inr (self1, w1)) \<Rightarrow> Some (substitute_record self1 w1))"

section \<open>class Orr\<close>

record orr_snapshot =
  snap_seq1 :: string
  snap_seq2 :: string
  snap_dist01 :: nat
  snap_dist02 :: nat
  snap_dist12 :: nat
  snap_II1 :: "nat \<rightharpoonup> char"
  snap_II2 :: "nat \<rightharpoonup> char"
  snap_nu1 :: real
  snap_nu2 :: real

record orr =
  orr_pop1 :: population
  orr_pop2 :: population
  orr_dist :: nat
  orr_II1 :: "nat \<rightharpoonup> char"
  orr_II2 :: "nat \<rightharpoonup> char"
  orr_p :: real
  orr_n_steps :: nat
  orr_history :: "nat \<rightharpoonup> orr_snapshot"

definition orr_snap :: "orr \<Rightarrow> error + orr_snapshot" where
  \<comment> \<open>the dictionary literal stored in \<open>self.history\<close>; it reads both \<open>nu\<close> attributes\<close>
  "orr_snap self =
     (case g_nu (pop_current (orr_pop1 self)) of
        None \<Rightarrow> Inl AttributeError
      | Some nu1 \<Rightarrow>
          (case g_nu (pop_current (orr_pop2 self)) of
             None \<Rightarrow> Inl AttributeError
           | Some nu2 \<Rightarrow>
               Inr \<lparr>snap_seq1 = g_seq (pop_current (orr_pop1 self)),
                    snap_seq2 = g_seq (pop_current (orr_pop2 self)),
                    snap_dist01 = pop_dist (orr_pop1 self),
                    snap_dist02 = pop_dist (orr_pop2 self),
                    snap_dist12 = orr_dist self,
                    snap_II1 = orr_II1 self, snap_II2 = orr_II2 self,
                    snap_nu1 = nu1, snap_nu2 = nu2\<rparr>))"

definition Orr_init :: "genotype \<Rightarrow> world \<Rightarrow> error + orr \<times> world" where
  "Orr_init ancestor w =
     (case Population_init ancestor w of
        Inl e \<Rightarrow> Inl e
      | Inr (pop1, w1) \<Rightarrow>
          (let self = \<lparr>orr_pop1 = pop1, orr_pop2 = pop1, orr_dist = 0,
                       orr_II1 = Map.empty, orr_II2 = Map.empty,
                       orr_p = g_p (pop_ancestor pop1), orr_n_steps = 0,
                       orr_history = Map.empty\<rparr>
           in (case orr_snap self of
                 Inl e \<Rightarrow> Inl e
               | Inr s \<Rightarrow> Inr (self\<lparr>orr_history := [0 \<mapsto> s]\<rparr>, w1))))"

definition Orr_get_dist :: "orr \<Rightarrow> error + orr" where
  "Orr_get_dist self =
     (case Genotype_dist (g_seq (pop_current (orr_pop1 self))) (g_seq (pop_current (orr_pop2 self))) of
        Inl e \<Rightarrow> Inl e
      | Inr d \<Rightarrow> Inr (self\<lparr>orr_dist := d\<rparr>))"

definition Orr_get_IIs :: "orr \<Rightarrow> world \<Rightarrow> error + orr \<times> world" where
  "Orr_get_IIs self w =
     (case get_IIs (pop_current (orr_pop1 self)) (pop_current (orr_pop2 self)) w of
        Inl e \<Rightarrow> Inl e
      | Inr (ii1, w1) \<Rightarrow>
          (case get_IIs (pop_current (orr_pop2 self)) (pop_current (orr_pop1 self)) w1 of
             Inl e \<Rightarrow> Inl e
           | Inr (ii2, w2) \<Rightarrow> Inr (self\<lparr>orr_II1 := ii1, orr_II2 := ii2\<rparr>, w2)))"

definition Orr_bookkeeping :: "orr \<Rightarrow> world \<Rightarrow> error + orr \<times> world" where
  \<comment> \<open>\<open>Orr.substitute\<close> from \<open>self.n_steps += 1\<close> to its end\<close>
  "Orr_bookkeeping self w =
     (case Orr_get_dist (self\<lparr>orr_n_steps := orr_n_steps self + 1\<rparr>) of
        Inl e \<Rightarrow> Inl e
      | Inr self1 \<Rightarrow>
          (case (if orr_dist self1 > 1
                 then Orr_get_IIs (self1\<lparr>orr_II1 := Map.empty, orr_II2 := Map.empty\<rparr>) w
                 else Inr (self1\<lparr>orr_II1 := Map.empty, orr_II2 := Map.empty\<rparr>, w)) of
             Inl e \<Rightarrow> Inl e
           | Inr (self2, w1) \<Rightarrow>
               (case orr_snap self2 of
                  Inl e \<Rightarrow> Inl e
                | Inr s \<Rightarrow>
                    Inr (self2\<lparr>orr_history := (orr_history self2)(orr_n_steps self2 \<mapsto> s)\<rparr>, w1))))"

definition Orr_substitute :: "bool \<Rightarrow> orr \<Rightarrow> world \<Rightarrow> (error + orr \<times> world) option" where
  "Orr_substitute blind self w =
     (let (rand, w0) = rnd_random w
      in if rand < 0.5
         then (case Population_substitute blind (orr_pop1 self) w0 of
                 None \<Rightarrow> None
               | Some (Inl e) \<Rightarrow> Some (Inl e)
               | Some (Inr (pop, w1)) \<Rightarrow> Some (Orr_bookkeeping (self\<lparr>orr_pop1 := pop\<rparr>) w1))
         else (case Population_substitute blind (orr_pop2 self) w0 of
                 None \<Rightarrow> None
               | Some (Inl e) \<Rightarrow> Some (Inl e)
               | Some (Inr (pop, w1)) \<Rightarrow> Some (Orr_bookkeeping (self\<lparr>orr_pop2 := pop\<rparr>) w1)))"

text \<open>A run: the steps a driver makes, one regime flag per step, stopping at the first exception.\<close>

fun Orr_run :: "bool list \<Rightarrow> orr \<Rightarrow> world \<Rightarrow> (error + orr \<times> world) option" where
  "Orr_run [] self w = Some (Inr (self, w))"
| "Orr_run (blind # rest) self w =
     (case Orr_substitute blind self w of
        None \<Rightarrow> None
      | Some (Inl e) \<Rightarrow> Some (Inl e)
      | Some (Inr (self1, w1)) \<Rightarrow> Orr_run rest self1 w1)"

section \<open>Notions of the specification\<close>

text \<open>
  The specification's data model: a sequence is a tuple of binary alleles, written
  \<open>0\<close> and \<open>1\<close>. \<open>flip_allele\<close> is the other allele.
\<close>

definition binary_sequence :: "string \<Rightarrow> bool" where
  "binary_sequence s = (\<forall>c \<in> set s. c = CHR ''0'' \<or> c = CHR ''1'')"

definition flip_allele :: "char \<Rightarrow> char" where
  "flip_allele c = (if c = CHR ''0'' then CHR ''1'' else CHR ''0'')"

text \<open>
  The state at process start: both dictionaries empty, no draw consumed. The arguments
  are the draws the generator is going to give.
\<close>

definition fresh_world :: "(nat \<Rightarrow> real) \<Rightarrow> (nat \<Rightarrow> nat) \<Rightarrow> world" where
  "fresh_world floats ints =
     \<lparr>viability_dict = Map.empty, nu_dict = Map.empty,
      rnd_floats = floats, rnd_ints = ints, rnd_pos = 0\<rparr>"

text \<open>
  How a driver starts a run: an ancestor of the given sequence, forced viable, and the two
  lineages founded from it.
\<close>

definition start_from :: "string \<Rightarrow> real \<Rightarrow> world \<Rightarrow> error + orr \<times> world" where
  "start_from seq p w =
     (case make_viable seq p w of
        Inl e \<Rightarrow> Inl e
      | Inr (ancestor, w1) \<Rightarrow> Orr_init ancestor w1)"

text \<open>Every entry of the viability mapping before is an entry, with the same value, after.\<close>

definition oracle_grows :: "world \<Rightarrow> world \<Rightarrow> bool" where
  "oracle_grows w w' = (viability_dict w \<subseteq>\<^sub>m viability_dict w')"

text \<open>
  The bookkeeping of the divergence process: its step counter is the sum of the two
  populations' counters, and its history has exactly the keys \<open>0, \<dots>, n_steps\<close>.
\<close>

definition orr_books_ok :: "orr \<Rightarrow> bool" where
  "orr_books_ok self =
     (orr_n_steps self = pop_n_steps (orr_pop1 self) + pop_n_steps (orr_pop2 self)
      \<and> dom (orr_history self) = {0..orr_n_steps self})"


section \<open>Indexing, slicing and digits on the inputs the program uses\<close>

lemma py_getitem_nat: "i < length s \<Longrightarrow> py_getitem s (int i) = Inr (s ! i)"
  by (simp add: py_getitem_def)

lemma py_slice_upto_nat: "py_slice_upto s (int i) = take i s"
  by (simp add: py_slice_upto_def)

lemma py_slice_from_nat: "py_slice_from s (int i + 1) = drop (Suc i) s"
  by (simp add: py_slice_from_def nat_add_distrib)

lemma py_int_0: "py_int CHR ''0'' = Inr 0"
  by (simp add: py_int_def)

lemma py_int_1: "py_int CHR ''1'' = Inr 1"
  by (simp add: py_int_def)

lemma py_str_0: "py_str 0 = ''0''"
  by (simp add: py_str_def str_nat.simps digit_char_def)

lemma py_str_1: "py_str 1 = ''1''"
  by (simp add: py_str_def str_nat.simps digit_char_def)

lemmas py_eval = py_getitem_def py_slice_upto_def py_slice_from_def py_int_def py_str_def
  str_nat.simps digit_char_def

section \<open>Mutation\<close>

lemma mutate_Site_binary:
  assumes "i < length s" and "s ! i = CHR ''0'' \<or> s ! i = CHR ''1''"
  shows "mutate s (Site (int i)) = Inr (s[i := flip_allele (s ! i)])"
  using assms
  by (auto simp: py_getitem_nat py_slice_upto_nat py_slice_from_nat py_int_0 py_int_1
      py_str_0 py_str_1 flip_allele_def upd_conv_take_nth_drop)

lemma binary_sequence_nth:
  "binary_sequence s \<Longrightarrow> i < length s \<Longrightarrow> s ! i = CHR ''0'' \<or> s ! i = CHR ''1''"
  by (simp add: binary_sequence_def)

lemma binary_sequence_update: "binary_sequence s \<Longrightarrow> binary_sequence (s[i := flip_allele c])"
  unfolding binary_sequence_def flip_allele_def
  by (auto dest!: set_update_subset_insert [THEN subsetD])

lemma flip_allele_twice: "c = CHR ''0'' \<or> c = CHR ''1'' \<Longrightarrow> flip_allele (flip_allele c) = c"
  by (auto simp: flip_allele_def)

lemma flip_allele_neq: "flip_allele c \<noteq> c"
  by (auto simp: flip_allele_def)

text \<open>
  C8. On a binary sequence \<open>s\<close> and a site \<open>i\<close> of \<open>[0, L)\<close>, \<open>mutate(s, i)\<close>
  returns a sequence of the same length whose allele at \<open>i\<close> is the flipped one and
  whose other alleles are those of \<open>s\<close>, and mutating the result at \<open>i\<close> again
  returns \<open>s\<close>.
\<close>

theorem mutate_flips_site_involution:
  assumes "binary_sequence s" and "i < length s"
  shows "\<exists>s'. mutate s (Site (int i)) = Inr s' \<and> length s' = length s
           \<and> s' ! i = flip_allele (s ! i) \<and> s' ! i \<noteq> s ! i
           \<and> (\<forall>j < length s. j \<noteq> i \<longrightarrow> s' ! j = s ! j)
           \<and> mutate s' (Site (int i)) = Inr s"
proof -
  let ?s' = "s[i := flip_allele (s ! i)]"
  have b: "s ! i = CHR ''0'' \<or> s ! i = CHR ''1''"
    using assms by (rule binary_sequence_nth)
  have m1: "mutate s (Site (int i)) = Inr ?s'"
    using assms(2) b by (rule mutate_Site_binary)
  have b': "?s' ! i = CHR ''0'' \<or> ?s' ! i = CHR ''1''"
    using assms(2) by (auto simp: flip_allele_def)
  have "mutate ?s' (Site (int i)) = Inr (?s'[i := flip_allele (?s' ! i)])"
    using assms(2) b' by (intro mutate_Site_binary) simp_all
  also have "?s'[i := flip_allele (?s' ! i)] = s"
    using assms(2) b by (simp add: flip_allele_twice)
  finally have m2: "mutate ?s' (Site (int i)) = Inr s" .
  show ?thesis
    using m1 m2 assms(2) by (intro exI [of _ ?s']) (simp add: flip_allele_neq)
qed

theorem mutate_flips_site_involution_witness:
  "binary_sequence ''00000'' \<and> (1::nat) < length ''00000''
   \<and> mutate ''00000'' (Site 1) = Inr ''01000'' \<and> mutate ''01000'' (Site 1) = Inr ''00000''"
proof -
  have b: "binary_sequence ''00000''"
    by (simp add: binary_sequence_def)
  have l: "(1::nat) < length ''00000''"
    by simp
  have e: "mutate ''00000'' (Site 1) = Inr ''01000''"
    by (simp add: py_eval)
  from mutate_flips_site_involution [OF b l] obtain s' where
    m1: "mutate ''00000'' (Site (int 1)) = Inr s'" and m2: "mutate s' (Site (int 1)) = Inr ''00000''"
    by blast
  from m1 e have "s' = ''01000''" by simp
  with m2 have "mutate ''01000'' (Site 1) = Inr ''00000''" by simp
  with b l e show ?thesis by blast
qed

section \<open>Hamming distance\<close>

lemma dist_loop_filter:
  "dist_loop ps n = n + length (filter (\<lambda>(ch1, ch2). ch1 \<noteq> ch2) ps)"
  by (induction ps n rule: dist_loop.induct) simp_all

text \<open>
  C1. The distance of two sequences of unequal length: \<open>Genotype.dist('0', '01')\<close>
  returns 0, the count over the common prefix, and raises nothing.
\<close>

theorem Genotype_dist_unequal_length_returns:
  "length ''0'' \<noteq> length ''01'' \<and> Genotype_dist ''0'' ''01'' = Inr 0"
  by (simp add: Genotype_dist_def)

section \<open>Diverged sites and introgression\<close>

lemma diverged_loop_sites:
  "sites (diverged_loop s1 s2 is d) = sites d @ filter (\<lambda>i. s1 ! i \<noteq> s2 ! i) is"
  by (induction "is" arbitrary: d) simp_all

lemma diverged_loop_seq2_alleles:
  "seq2_alleles (diverged_loop s1 s2 is d)
     = seq2_alleles d @ map (\<lambda>i. s2 ! i) (filter (\<lambda>i. s1 ! i \<noteq> s2 ! i) is)"
  by (induction "is" arbitrary: d) simp_all

lemma diverged_loop_seq1_alleles:
  "seq1_alleles (diverged_loop s1 s2 is d)
     = seq1_alleles d @ map (\<lambda>i. s1 ! i) (filter (\<lambda>i. s1 ! i \<noteq> s2 ! i) is)"
  by (induction "is" arbitrary: d) simp_all

lemma get_diverged_sites_eq:
  assumes "length s2 = length s1"
  shows "get_diverged_sites s1 s2 =
           Inr \<lparr>seq1_alleles = map (\<lambda>i. s1 ! i) (filter (\<lambda>i. s1 ! i \<noteq> s2 ! i) [0..<length s1]),
                seq2_alleles = map (\<lambda>i. s2 ! i) (filter (\<lambda>i. s1 ! i \<noteq> s2 ! i) [0..<length s1]),
                sites = filter (\<lambda>i. s1 ! i \<noteq> s2 ! i) [0..<length s1]\<rparr>"
  using assms
  by (simp add: get_diverged_sites_def diverged_loop_sites diverged_loop_seq1_alleles
      diverged_loop_seq2_alleles)

lemma introgress_loop_binary:
  assumes "binary_sequence r" and "\<forall>i \<in> set is. i < length r"
  shows "introgress_loop r is acc = Inr (acc @ map (\<lambda>i. r[i := flip_allele (r ! i)]) is)"
  using assms(2)
proof (induction "is" arbitrary: acc)
  case Nil
  then show ?case by simp
next
  case (Cons i rest)
  have "mutate r (Site (int i)) = Inr (r[i := flip_allele (r ! i)])"
    using Cons.prems assms(1) by (intro mutate_Site_binary binary_sequence_nth) simp_all
  then show ?case using Cons by simp
qed

lemma flip_allele_donor:
  assumes "a = CHR ''0'' \<or> a = CHR ''1''" and "b = CHR ''0'' \<or> b = CHR ''1''" and "a \<noteq> b"
  shows "flip_allele a = b"
  using assms by (auto simp: flip_allele_def)

lemma zip_as_map_nth:
  "length b = length a \<Longrightarrow> zip a b = map (\<lambda>i. (a ! i, b ! i)) [0..<length a]"
  by (rule nth_equalityI) simp_all

lemma Genotype_dist_equal_length:
  assumes "length b = length a"
  shows "Genotype_dist a b = Inr (length (filter (\<lambda>i. a ! i \<noteq> b ! i) [0..<length a]))"
proof -
  have "filter (\<lambda>(ch1, ch2). ch1 \<noteq> ch2) (zip a b)
          = map (\<lambda>i. (a ! i, b ! i)) (filter (\<lambda>i. a ! i \<noteq> b ! i) [0..<length a])"
    by (simp add: zip_as_map_nth [OF assms] filter_map comp_def)
  then show ?thesis
    by (simp add: Genotype_dist_def dist_loop_filter)
qed

lemma introgress_binary:
  assumes "binary_sequence r" and "binary_sequence d" and "length d = length r"
  shows "introgress r d =
           Inr (map (\<lambda>i. r[i := d ! i]) (filter (\<lambda>i. r ! i \<noteq> d ! i) [0..<length r]))"
proof -
  let ?ds = "filter (\<lambda>i. r ! i \<noteq> d ! i) [0..<length r]"
  have in_range: "\<forall>i \<in> set ?ds. i < length r" by simp
  have "map (\<lambda>i. r[i := flip_allele (r ! i)]) ?ds = map (\<lambda>i. r[i := d ! i]) ?ds"
  proof (rule map_cong [OF refl])
    fix i assume "i \<in> set ?ds"
    then have i: "i < length r" and ne: "r ! i \<noteq> d ! i" by simp_all
    have "flip_allele (r ! i) = d ! i"
      using assms i ne by (intro flip_allele_donor binary_sequence_nth) simp_all
    then show "r[i := flip_allele (r ! i)] = r[i := d ! i]" by simp
  qed
  moreover have "introgress r d = Inr (map (\<lambda>i. r[i := flip_allele (r ! i)]) ?ds)"
    using assms(3) introgress_loop_binary [OF assms(1) in_range, of "[]"]
    by (cases "?ds = []") (simp_all add: introgress_def get_diverged_sites_eq)
  ultimately show ?thesis by simp
qed

lemma introgress_example: "introgress ''00000'' ''01110'' = Inr [''01000'', ''00100'', ''00010'']"
  by (simp add: introgress_def get_diverged_sites_def upt_rec py_eval)

text \<open>
  C7. For binary sequences of equal length, \<open>introgress\<close> returns, for the diverged
  sites in ascending order, the recipient with that one site replaced by the donor's
  allele; the number of returned sequences is the Hamming distance; identical sequences
  give the empty list; and \<open>introgress('00000', '01110')\<close> is
  \<open>['01000', '00100', '00010']\<close>.
\<close>

theorem introgress_one_per_diverged_site:
  assumes "binary_sequence recipient" and "binary_sequence donor"
    and "length donor = length recipient"
  shows "let ds = filter (\<lambda>i. recipient ! i \<noteq> donor ! i) [0..<length recipient]
         in introgress recipient donor = Inr (map (\<lambda>i. recipient[i := donor ! i]) ds)
          \<and> Genotype_dist recipient donor = Inr (length ds)
          \<and> sorted_wrt (<) ds
          \<and> (recipient = donor \<longrightarrow> introgress recipient donor = Inr [])
          \<and> introgress ''00000'' ''01110'' = Inr [''01000'', ''00100'', ''00010'']"
proof -
  have "sorted_wrt (<) (filter (\<lambda>i. recipient ! i \<noteq> donor ! i) [0..<length recipient])"
    by (rule sorted_wrt_filter) simp
  then show ?thesis
    using introgress_binary [OF assms] Genotype_dist_equal_length [OF assms(3)]
      introgress_example
    by (auto simp: Let_def)
qed

theorem introgress_one_per_diverged_site_witness:
  "binary_sequence ''00000'' \<and> binary_sequence ''01110'' \<and> length ''01110'' = length ''00000''
   \<and> introgress ''00000'' ''01110'' = Inr [''01000'', ''00100'', ''00010'']
   \<and> Genotype_dist ''00000'' ''01110'' = Inr 3"
proof -
  have b1: "binary_sequence ''00000''" and b2: "binary_sequence ''01110''"
    by (simp_all add: binary_sequence_def)
  have l: "length ''01110'' = length ''00000''" by simp
  have u: "[0..<5] = [0, 1, 2, 3, 4]" by (simp add: upt_rec)
  show ?thesis
    using introgress_one_per_diverged_site [OF b1 b2 l] b1 b2
    by (simp add: Let_def u)
qed

section \<open>The viability mapping\<close>

lemma oracle_grows_refl: "oracle_grows w w"
  by (simp add: oracle_grows_def)

lemma oracle_grows_trans: "oracle_grows w1 w2 \<Longrightarrow> oracle_grows w2 w3 \<Longrightarrow> oracle_grows w1 w3"
  unfolding oracle_grows_def by (rule map_le_trans)

lemma oracle_grows_lookup:
  "oracle_grows w w' \<Longrightarrow> viability_dict w s = Some v \<Longrightarrow> viability_dict w' s = Some v"
  unfolding oracle_grows_def map_le_def by (metis domI)

lemma get_viability_hit: "viability_dict w seq = Some v \<Longrightarrow> get_viability seq p w = (v, w)"
  by (simp add: get_viability_def)

lemma get_viability_miss:
  "viability_dict w seq = None \<Longrightarrow>
   get_viability seq p w =
     (rnd_floats w (rnd_pos w) < p,
      w\<lparr>rnd_pos := Suc (rnd_pos w),
        viability_dict := (viability_dict w)(seq \<mapsto> rnd_floats w (rnd_pos w) < p)\<rparr>)"
  by (simp add: get_viability_def rnd_random_def)

lemma get_viability_recorded:
  "get_viability seq p w = (v, w') \<Longrightarrow> viability_dict w' seq = Some v"
  by (cases "viability_dict w seq") (auto simp: get_viability_hit get_viability_miss)

lemma get_viability_grows: "get_viability seq p w = (v, w') \<Longrightarrow> oracle_grows w w'"
  by (cases "viability_dict w seq")
    (auto simp: get_viability_hit get_viability_miss oracle_grows_def map_le_def)

lemma get_viability_nu_dict: "get_viability seq p w = (v, w') \<Longrightarrow> nu_dict w' = nu_dict w"
  by (cases "viability_dict w seq") (auto simp: get_viability_hit get_viability_miss)

lemma Genotype_init_Inr:
  assumes "Genotype_init seq p w = Inr (g, w')"
  shows "get_viability seq p w = (g_viable g, w')" and "g_seq g = seq" and "g_L g = length seq"
    and "g_p g = p" and "g_nu g = None" and "0 \<le> p" and "p \<le> 1"
  using assms by (auto simp: Genotype_init_def split: if_splits prod.splits)

lemma Genotype_init_ok:
  "0 \<le> p \<Longrightarrow> p \<le> 1 \<Longrightarrow>
   Genotype_init seq p w =
     Inr (\<lparr>g_seq = seq, g_L = length seq, g_p = p, g_viable = fst (get_viability seq p w),
           g_nu = None\<rparr>, snd (get_viability seq p w))"
  by (simp add: Genotype_init_def split: prod.splits)

lemma Genotype_init_grows: "Genotype_init seq p w = Inr (g, w') \<Longrightarrow> oracle_grows w w'"
  by (drule Genotype_init_Inr(1)) (rule get_viability_grows)

lemma Genotype_init_recorded:
  "Genotype_init seq p w = Inr (g, w') \<Longrightarrow> viability_dict w' seq = Some (g_viable g)"
  by (drule Genotype_init_Inr(1)) (rule get_viability_recorded)

section \<open>The viability mapping across the operations\<close>

lemma mutate_random_world:
  "mutate_random seq w = Inr (m, w') \<Longrightarrow> w' = w\<lparr>rnd_pos := Suc (rnd_pos w)\<rparr>"
  by (auto simp: mutate_random_def rnd_randint_def split: if_splits sum.splits)

lemma oracle_grows_rnd_pos: "oracle_grows w (w\<lparr>rnd_pos := n\<rparr>)"
  by (simp add: oracle_grows_def)

lemma mutate_random_grows: "mutate_random seq w = Inr (m, w') \<Longrightarrow> oracle_grows w w'"
  by (drule mutate_random_world) (simp add: oracle_grows_rnd_pos)

lemma viable_neighbors_loop_grows:
  "viable_neighbors_loop self is viable w = Inr (r, w') \<Longrightarrow> oracle_grows w w'"
proof (induction "is" arbitrary: viable w)
  case Nil
  then show ?case by (simp add: oracle_grows_refl)
next
  case (Cons i rest)
  from Cons.prems obtain m mut w1 where
    g: "Genotype_init m (g_p self) w = Inr (mut, w1)" and
    r: "viable_neighbors_loop self rest (if g_viable mut then viable @ [i] else viable) w1 = Inr (r, w')"
    by (auto split: sum.splits)
  from Genotype_init_grows [OF g] Cons.IH [OF r] show ?case
    by (rule oracle_grows_trans)
qed

lemma get_robustness_grows:
  assumes "get_robustness g w = Inr (g', w')"
  shows "oracle_grows w w'"
proof (cases "nu_dict w (g_seq g)")
  case (Some v)
  with assms show ?thesis by (simp add: get_robustness_def oracle_grows_refl)
next
  case None
  with assms obtain viable w1 where
    n: "viable_neighbors_loop g [0..<g_L g] [] w = Inr (viable, w1)" and
    w': "w' = w1\<lparr>nu_dict := (nu_dict w1)(g_seq g \<mapsto> real (length viable) / real (g_L g))\<rparr>"
    by (auto simp: get_robustness_def get_viable_neighbors_def Let_def split: sum.splits if_splits)
  from viable_neighbors_loop_grows [OF n] show ?thesis
    by (simp add: w' oracle_grows_def)
qed

lemma substitute_loop_aux:
  assumes run: "substitute_loop blind self w = Some y"
  shows "\<forall>self' w'. y = Inr (self', w') \<longrightarrow>
           (\<forall>Q. (\<forall>w m w1 mut w2. mutate_random (g_seq (pop_current self)) w = Inr (m, w1) \<longrightarrow>
                     Genotype_init m (pop_p self) w1 = Inr (mut, w2) \<longrightarrow>
                     \<not> g_viable mut \<longrightarrow> \<not> blind \<longrightarrow> Q w2 \<longrightarrow> Q w) \<longrightarrow>
                (\<forall>w m w1 mut. mutate_random (g_seq (pop_current self)) w = Inr (m, w1) \<longrightarrow>
                     Genotype_init m (pop_p self) w1 = Inr (mut, w') \<longrightarrow>
                     g_viable mut \<or> blind \<longrightarrow>
                     self' = (if g_viable mut then self\<lparr>pop_current := mut\<rparr> else self) \<longrightarrow> Q w) \<longrightarrow>
                Q w)"
proof (rule substitute_loop.raw_induct
    [where P = "\<lambda>blind self w y. \<forall>self' w'. y = Inr (self', w') \<longrightarrow>
           (\<forall>Q. (\<forall>w m w1 mut w2. mutate_random (g_seq (pop_current self)) w = Inr (m, w1) \<longrightarrow>
                     Genotype_init m (pop_p self) w1 = Inr (mut, w2) \<longrightarrow>
                     \<not> g_viable mut \<longrightarrow> \<not> blind \<longrightarrow> Q w2 \<longrightarrow> Q w) \<longrightarrow>
                (\<forall>w m w1 mut. mutate_random (g_seq (pop_current self)) w = Inr (m, w1) \<longrightarrow>
                     Genotype_init m (pop_p self) w1 = Inr (mut, w') \<longrightarrow>
                     g_viable mut \<or> blind \<longrightarrow>
                     self' = (if g_viable mut then self\<lparr>pop_current := mut\<rparr> else self) \<longrightarrow> Q w) \<longrightarrow>
                Q w)", OF _ run], goal_cases)
  case (1 loop blind self w y)
  show ?case
  proof (intro allI impI)
    fix self' w' Q
    assume y: "y = Inr (self', w')"
      and step: "\<forall>w m w1 mut w2. mutate_random (g_seq (pop_current self)) w = Inr (m, w1) \<longrightarrow>
                     Genotype_init m (pop_p self) w1 = Inr (mut, w2) \<longrightarrow>
                     \<not> g_viable mut \<longrightarrow> \<not> blind \<longrightarrow> Q w2 \<longrightarrow> Q w"
      and fin: "\<forall>w m w1 mut. mutate_random (g_seq (pop_current self)) w = Inr (m, w1) \<longrightarrow>
                     Genotype_init m (pop_p self) w1 = Inr (mut, w') \<longrightarrow>
                     g_viable mut \<or> blind \<longrightarrow>
                     self' = (if g_viable mut then self\<lparr>pop_current := mut\<rparr> else self) \<longrightarrow> Q w"
    from 1(2) y obtain m w1 mut w2 where
      m: "mutate_random (g_seq (pop_current self)) w = Inr (m, w1)" and
      g: "Genotype_init m (pop_p self) w1 = Inr (mut, w2)" and
      r: "(if g_viable mut then Some (Inr (self\<lparr>pop_current := mut\<rparr>, w2))
           else if blind then Some (Inr (self, w2)) else loop blind self w2)
          = Some (Inr (self', w'))"
      by (auto split: sum.splits)
    show "Q w"
    proof (cases "g_viable mut \<or> blind")
      case True
      with r have "w' = w2" and "self' = (if g_viable mut then self\<lparr>pop_current := mut\<rparr> else self)"
        by (auto split: if_splits)
      with fin m g True show ?thesis by blast
    next
      case False
      with r have "loop blind self w2 = Some (Inr (self', w'))" by simp
      from 1(1) [OF this] step fin have "Q w2" by blast
      with step m g False show ?thesis by blast
    qed
  qed
qed

lemma substitute_loop_cases [consumes 1, case_names retry stop]:
  assumes "substitute_loop blind self w = Some (Inr (self', w'))"
    and "\<And>w m w1 mut w2. mutate_random (g_seq (pop_current self)) w = Inr (m, w1) \<Longrightarrow>
           Genotype_init m (pop_p self) w1 = Inr (mut, w2) \<Longrightarrow>
           \<not> g_viable mut \<Longrightarrow> \<not> blind \<Longrightarrow> Q w2 \<Longrightarrow> Q w"
    and "\<And>w m w1 mut. mutate_random (g_seq (pop_current self)) w = Inr (m, w1) \<Longrightarrow>
           Genotype_init m (pop_p self) w1 = Inr (mut, w') \<Longrightarrow>
           g_viable mut \<or> blind \<Longrightarrow>
           self' = (if g_viable mut then self\<lparr>pop_current := mut\<rparr> else self) \<Longrightarrow> Q w"
  shows "Q w"
  using substitute_loop_aux [OF assms(1)] assms(2,3) by blast

lemma substitute_loop_grows:
  assumes "substitute_loop blind self w = Some (Inr (self', w'))"
  shows "oracle_grows w w'"
  using assms
proof (induct rule: substitute_loop_cases)
  case (retry w m w1 mut w2)
  from mutate_random_grows [OF retry(1)] Genotype_init_grows [OF retry(2)] retry(5)
  show ?case by (blast intro: oracle_grows_trans)
next
  case (stop w m w1 mut)
  from mutate_random_grows [OF stop(1)] Genotype_init_grows [OF stop(2)]
  show ?case by (rule oracle_grows_trans)
qed


lemma substitute_record_grows:
  "substitute_record self w = Inr (self', w') \<Longrightarrow> oracle_grows w w'"
  by (auto simp: substitute_record_def Let_def split: sum.splits option.splits
      dest: get_robustness_grows)

lemma Population_substitute_Some:
  assumes "Population_substitute blind self w = Some (Inr (self', w'))"
  obtains self1 w1 where "substitute_loop blind self w = Some (Inr (self1, w1))"
    and "substitute_record self1 w1 = Inr (self', w')"
  using assms by (auto simp: Population_substitute_def split: option.splits sum.splits)

lemma Population_substitute_grows:
  assumes "Population_substitute blind self w = Some (Inr (self', w'))"
  shows "oracle_grows w w'"
  using assms
  by (elim Population_substitute_Some)
    (blast intro: oracle_grows_trans substitute_loop_grows substitute_record_grows)

lemma get_IIs_loop_grows:
  "get_IIs_loop self is inviable w = Inr (r, w') \<Longrightarrow> oracle_grows w w'"
proof (induction "is" arbitrary: inviable w)
  case Nil
  then show ?case by (simp add: oracle_grows_refl)
next
  case (Cons i rest)
  from Cons.prems obtain g w1 inv1 where
    g: "Genotype_init i (g_p self) w = Inr (g, w1)" and
    r: "get_IIs_loop self rest inv1 w1 = Inr (r, w')"
    by (auto split: sum.splits if_splits list.splits)
  from Genotype_init_grows [OF g] Cons.IH [OF r] show ?case
    by (rule oracle_grows_trans)
qed

lemma get_IIs_grows: "get_IIs self donor w = Inr (r, w') \<Longrightarrow> oracle_grows w w'"
  by (auto simp: get_IIs_def split: if_splits sum.splits dest: get_IIs_loop_grows)

lemma Orr_get_IIs_grows: "Orr_get_IIs self w = Inr (self', w') \<Longrightarrow> oracle_grows w w'"
  by (auto simp: Orr_get_IIs_def split: sum.splits
      dest!: get_IIs_grows intro: oracle_grows_trans)

lemma Orr_bookkeeping_grows: "Orr_bookkeeping self w = Inr (self', w') \<Longrightarrow> oracle_grows w w'"
  by (auto simp: Orr_bookkeeping_def oracle_grows_refl split: sum.splits if_splits
      dest!: Orr_get_IIs_grows)

lemma Orr_substitute_Some:
  assumes "Orr_substitute blind self w = Some (Inr (self', w'))"
  obtains pop w1 where "rnd_floats w (rnd_pos w) < 0.5"
    and "Population_substitute blind (orr_pop1 self) (w\<lparr>rnd_pos := Suc (rnd_pos w)\<rparr>)
           = Some (Inr (pop, w1))"
    and "Orr_bookkeeping (self\<lparr>orr_pop1 := pop\<rparr>) w1 = Inr (self', w')"
  | pop w1 where "\<not> rnd_floats w (rnd_pos w) < 0.5"
    and "Population_substitute blind (orr_pop2 self) (w\<lparr>rnd_pos := Suc (rnd_pos w)\<rparr>)
           = Some (Inr (pop, w1))"
    and "Orr_bookkeeping (self\<lparr>orr_pop2 := pop\<rparr>) w1 = Inr (self', w')"
  using assms
  by (auto simp: Orr_substitute_def rnd_random_def split: if_splits option.splits sum.splits)

lemma Orr_substitute_grows:
  assumes "Orr_substitute blind self w = Some (Inr (self', w'))"
  shows "oracle_grows w w'"
  using assms
proof (cases rule: Orr_substitute_Some)
  case (1 pop w1)
  from oracle_grows_rnd_pos Population_substitute_grows [OF 1(2)]
  have "oracle_grows w w1" by (rule oracle_grows_trans)
  then show ?thesis using Orr_bookkeeping_grows [OF 1(3)] by (rule oracle_grows_trans)
next
  case (2 pop w1)
  from oracle_grows_rnd_pos Population_substitute_grows [OF 2(2)]
  have "oracle_grows w w1" by (rule oracle_grows_trans)
  then show ?thesis using Orr_bookkeeping_grows [OF 2(3)] by (rule oracle_grows_trans)
qed

lemma make_viable_entries:
  assumes "make_viable seq p w = Inr (g, w')"
  shows "dom (viability_dict w) \<subseteq> dom (viability_dict w')"
    and "s \<noteq> seq \<Longrightarrow> viability_dict w s = Some b \<Longrightarrow> viability_dict w' s = Some b"
    and "viability_dict w' seq = Some True"
proof -
  from assms obtain g1 w1 where
    i: "Genotype_init seq p w = Inr (g1, w1)" and
    w': "w' = (if \<not> g_viable g1 then w1\<lparr>viability_dict := (viability_dict w1)(seq \<mapsto> True)\<rparr>
               else w1)"
    by (auto simp: make_viable_def split: sum.splits if_splits)
  note gr = Genotype_init_grows [OF i]
  show "viability_dict w' seq = Some True"
    using Genotype_init_recorded [OF i] by (simp add: w')
  show "s \<noteq> seq \<Longrightarrow> viability_dict w s = Some b \<Longrightarrow> viability_dict w' s = Some b"
    using oracle_grows_lookup [OF gr] by (simp add: w')
  show "dom (viability_dict w) \<subseteq> dom (viability_dict w')"
    using gr by (auto simp: w' oracle_grows_def dest: map_le_implies_dom_le)
qed


lemma substitute_loop_blind:
  "substitute_loop True self w =
     (case mutate_random (g_seq (pop_current self)) w of
        Inl e \<Rightarrow> Some (Inl e)
      | Inr (m, w1) \<Rightarrow>
          (case Genotype_init m (pop_p self) w1 of
             Inl e \<Rightarrow> Some (Inl e)
           | Inr (mut, w2) \<Rightarrow>
               Some (Inr (if g_viable mut then self\<lparr>pop_current := mut\<rparr> else self, w2))))"
  by (subst substitute_loop.simps) (simp split: sum.splits prod.splits)

lemmas run_eval = start_from_def make_viable_def Genotype_init_def get_viability_def
  rnd_random_def rnd_randint_def fresh_world_def Population_init_def get_robustness_def
  get_viable_neighbors_def upt_rec py_eval Orr_init_def orr_snap_def Orr_substitute_def
  Population_substitute_def substitute_loop_blind mutate_random_def substitute_record_def
  Genotype_dist_def Orr_bookkeeping_def Orr_get_dist_def Orr_get_IIs_def get_IIs_def
  introgress_def get_diverged_sites_def Let_def

text \<open>
  C4, as claimed, fails for forcing a genotype viable. From process start, with a first
  draw of 3/4 and \<open>p = 1/2\<close>, the lookup of \<open>'0'\<close> records \<open>False\<close>; then
  \<open>make_viable('0', 1/2)\<close> overwrites that entry with \<open>True\<close>.
\<close>

theorem make_viable_overwrites_entry:
  "Genotype_init ''0'' (1 / 2) (fresh_world (\<lambda>k. 3 / 4) (\<lambda>k. 0))
     = Inr (\<lparr>g_seq = ''0'', g_L = 1, g_p = 1 / 2, g_viable = False, g_nu = None\<rparr>,
            (fresh_world (\<lambda>k. 3 / 4) (\<lambda>k. 0))
              \<lparr>rnd_pos := 1, viability_dict := [''0'' \<mapsto> False]\<rparr>)
   \<and> make_viable ''0'' (1 / 2)
       ((fresh_world (\<lambda>k. 3 / 4) (\<lambda>k. 0))\<lparr>rnd_pos := 1, viability_dict := [''0'' \<mapsto> False]\<rparr>)
     = Inr (\<lparr>g_seq = ''0'', g_L = 1, g_p = 1 / 2, g_viable = True, g_nu = None\<rparr>,
            (fresh_world (\<lambda>k. 3 / 4) (\<lambda>k. 0))
              \<lparr>rnd_pos := 1, viability_dict := [''0'' \<mapsto> True]\<rparr>)
   \<and> \<not> oracle_grows
         ((fresh_world (\<lambda>k. 3 / 4) (\<lambda>k. 0))\<lparr>rnd_pos := 1, viability_dict := [''0'' \<mapsto> False]\<rparr>)
         ((fresh_world (\<lambda>k. 3 / 4) (\<lambda>k. 0))\<lparr>rnd_pos := 1, viability_dict := [''0'' \<mapsto> True]\<rparr>)"
  by (simp add: make_viable_def Genotype_init_def get_viability_def fresh_world_def
      rnd_random_def oracle_grows_def map_le_def)

text \<open>
  C4, amended. A viability lookup, a robustness computation, a substitution of a
  population and a step of the divergence process keep every entry of the viability
  mapping, with its value. Forcing a genotype viable removes no key and keeps the entry
  of every other sequence; the entry of the forced sequence is \<open>True\<close> afterwards.
\<close>

theorem oracle_entries_kept:
  "(get_viability seq p w = (v, w') \<longrightarrow> oracle_grows w w')
   \<and> (make_viable seq p w = Inr (g, w') \<longrightarrow>
        dom (viability_dict w) \<subseteq> dom (viability_dict w')
        \<and> (\<forall>s b. s \<noteq> seq \<longrightarrow> viability_dict w s = Some b \<longrightarrow> viability_dict w' s = Some b)
        \<and> viability_dict w' seq = Some True)
   \<and> (get_robustness g w = Inr (g', w') \<longrightarrow> oracle_grows w w')
   \<and> (Population_substitute blind pop w = Some (Inr (pop', w')) \<longrightarrow> oracle_grows w w')
   \<and> (Orr_substitute blind self w = Some (Inr (self', w')) \<longrightarrow> oracle_grows w w')"
  using get_viability_grows [of seq p w v w'] make_viable_entries [of seq p w g w']
    get_robustness_grows [of g w g' w'] Population_substitute_grows [of blind pop w pop' w']
    Orr_substitute_grows [of blind self w self' w']
  by blast

theorem oracle_entries_kept_witness:
  "(case get_viability ''00'' (1 / 2) (fresh_world (\<lambda>k. 1 / 4) (\<lambda>k. k)) of
      (v, w') \<Rightarrow> oracle_grows (fresh_world (\<lambda>k. 1 / 4) (\<lambda>k. k)) w')
   \<and> (case make_viable ''00'' (1 / 2) (fresh_world (\<lambda>k. 3 / 4) (\<lambda>k. k)) of
        Inl e \<Rightarrow> False
      | Inr (g, w1) \<Rightarrow>
          viability_dict w1 ''00'' = Some True
          \<and> (case get_robustness g w1 of
                Inl e \<Rightarrow> False
              | Inr (g', w') \<Rightarrow> oracle_grows w1 w'))
   \<and> (case start_from ''00'' (1 / 2) (fresh_world (\<lambda>k. 1 / 4) (\<lambda>k. k)) of
        Inl e \<Rightarrow> False
      | Inr (self, w1) \<Rightarrow>
          (case Population_substitute True (orr_pop1 self) w1 of
             Some (Inr (pop', w')) \<Rightarrow> oracle_grows w1 w'
           | _ \<Rightarrow> False)
          \<and> (case Orr_substitute True self w1 of
                Some (Inr (self', w')) \<Rightarrow> oracle_grows w1 w'
              | _ \<Rightarrow> False))"
proof -
  let ?w0 = "fresh_world (\<lambda>k. 1 / 4) (\<lambda>k. k)"
  define v wa where "v = fst (get_viability ''00'' (1 / 2) ?w0)"
    and "wa = snd (get_viability ''00'' (1 / 2) ?w0)"
  have 1: "get_viability ''00'' (1 / 2) ?w0 = (v, wa)"
    by (simp add: v_def wa_def)
  have c1: "oracle_grows ?w0 wa"
    using oracle_entries_kept [where seq = "''00''" and p = "1 / 2" and w = ?w0 and v = v and w' = wa] 1 by blast
  let ?m = "make_viable ''00'' (1 / 2) (fresh_world (\<lambda>k. 3 / 4) (\<lambda>k. k))"
  define g wb where "g = fst (projr ?m)" and "wb = snd (projr ?m)"
  have 2: "?m = Inr (g, wb)"
    by (simp add: g_def wb_def run_eval)
  have c2: "viability_dict wb ''00'' = Some True"
    using oracle_entries_kept [where seq = "''00''" and p = "1 / 2"
        and w = "fresh_world (\<lambda>k. 3 / 4) (\<lambda>k. k)" and g = g and w' = wb] 2
    by blast
  have "\<exists>g' wc. get_robustness g wb = Inr (g', wc)"
    by (simp add: g_def wb_def run_eval)
  then obtain g' wc where 3: "get_robustness g wb = Inr (g', wc)"
    by blast
  have c3: "oracle_grows wb wc"
    using oracle_entries_kept [where w = wb and g = g and g' = g' and w' = wc] 3 by blast
  let ?s = "start_from ''00'' (1 / 2) ?w0"
  define self w1 where "self = fst (projr ?s)" and "w1 = snd (projr ?s)"
  have 4: "?s = Inr (self, w1)"
    by (simp add: self_def w1_def run_eval)
  have "\<exists>pop' wd. Population_substitute True (orr_pop1 self) w1 = Some (Inr (pop', wd))"
    by (simp add: self_def w1_def run_eval)
  then obtain pop' wd where 5: "Population_substitute True (orr_pop1 self) w1 = Some (Inr (pop', wd))"
    by blast
  have c5: "oracle_grows w1 wd"
    using oracle_entries_kept [where blind = True and pop = "orr_pop1 self" and w = w1
        and pop' = pop' and w' = wd] 5 by blast
  have "\<exists>self' we. Orr_substitute True self w1 = Some (Inr (self', we))"
    by (simp add: self_def w1_def run_eval)
  then obtain self' we where 6: "Orr_substitute True self w1 = Some (Inr (self', we))"
    by blast
  have c6: "oracle_grows w1 we"
    using oracle_entries_kept [where blind = True and self = self and w = w1
        and self' = self' and w' = we] 6 by blast
  show ?thesis
    by (simp add: 1 2 3 4 5 6 c1 c2 c3 c5 c6)
qed

section \<open>What a step changes\<close>

lemma substitute_loop_current:
  assumes "substitute_loop blind self w = Some (Inr (self', w'))"
  shows "\<exists>c. self' = self\<lparr>pop_current := c\<rparr>"
  using assms
proof (induct rule: substitute_loop_cases)
  case (retry w m w1 mut w2)
  then show ?case by simp
next
  case (stop w m w1 mut)
  show ?case
  proof (cases "g_viable mut")
    case True
    with stop(4) show ?thesis by auto
  next
    case False
    with stop(4) have "self' = self\<lparr>pop_current := pop_current self\<rparr>" by simp
    then show ?thesis by blast
  qed
qed

lemma substitute_record_fields:
  assumes "substitute_record self w = Inr (self', w')"
  shows "pop_ancestor self' = pop_ancestor self" and "pop_p self' = pop_p self"
    and "pop_n_steps self' = pop_n_steps self + 1"
    and "get_robustness (pop_current self) w = Inr (pop_current self', w')"
    and "Genotype_dist (g_seq (pop_current self')) (g_seq (pop_ancestor self)) = Inr (pop_dist self')"
    and "\<exists>nu. g_nu (pop_current self') = Some nu \<and>
           pop_history self' = (pop_history self)(pop_n_steps self + 1 \<mapsto>
             \<lparr>snap_seq = g_seq (pop_current self'), snap_dist = pop_dist self', snap_nu = nu\<rparr>)"
  using assms
  by (auto simp: substitute_record_def Let_def split: sum.splits option.splits)

lemma Population_substitute_fields:
  assumes "Population_substitute blind self w = Some (Inr (self', w'))"
  shows "pop_ancestor self' = pop_ancestor self" and "pop_p self' = pop_p self"
    and "pop_n_steps self' = pop_n_steps self + 1"
proof -
  from assms obtain self1 w1 where
    l: "substitute_loop blind self w = Some (Inr (self1, w1))" and
    r: "substitute_record self1 w1 = Inr (self', w')"
    by (rule Population_substitute_Some)
  from substitute_loop_current [OF l] obtain c where c: "self1 = self\<lparr>pop_current := c\<rparr>" ..
  from substitute_record_fields(1-3) [OF r] c
  show "pop_ancestor self' = pop_ancestor self" and "pop_p self' = pop_p self"
    and "pop_n_steps self' = pop_n_steps self + 1"
    by simp_all
qed

lemma Orr_get_IIs_fields:
  assumes "Orr_get_IIs self w = Inr (self', w')"
  shows "\<exists>w1. get_IIs (pop_current (orr_pop1 self)) (pop_current (orr_pop2 self)) w
               = Inr (orr_II1 self', w1)
             \<and> get_IIs (pop_current (orr_pop2 self)) (pop_current (orr_pop1 self)) w1
               = Inr (orr_II2 self', w')"
    and "self' = self\<lparr>orr_II1 := orr_II1 self', orr_II2 := orr_II2 self'\<rparr>"
  using assms by (auto simp: Orr_get_IIs_def split: sum.splits)

lemma Orr_bookkeeping_fields:
  assumes "Orr_bookkeeping self w = Inr (self', w')"
  shows "orr_pop1 self' = orr_pop1 self" and "orr_pop2 self' = orr_pop2 self"
    and "orr_p self' = orr_p self"
    and "orr_n_steps self' = orr_n_steps self + 1"
    and "Genotype_dist (g_seq (pop_current (orr_pop1 self))) (g_seq (pop_current (orr_pop2 self)))
           = Inr (orr_dist self')"
    and "\<exists>s. orr_snap self' = Inr s
           \<and> orr_history self' = (orr_history self)(orr_n_steps self + 1 \<mapsto> s)"
    and "orr_dist self' \<le> 1 \<Longrightarrow> orr_II1 self' = Map.empty \<and> orr_II2 self' = Map.empty \<and> w' = w"
    and "1 < orr_dist self' \<Longrightarrow>
           \<exists>w1. get_IIs (pop_current (orr_pop1 self)) (pop_current (orr_pop2 self)) w
                  = Inr (orr_II1 self', w1)
                \<and> get_IIs (pop_current (orr_pop2 self)) (pop_current (orr_pop1 self)) w1
                  = Inr (orr_II2 self', w')"
  using assms
  by (auto simp: Orr_bookkeeping_def Orr_get_dist_def Orr_get_IIs_def Genotype_dist_def
      orr_snap_def split: sum.splits if_splits option.splits)

section \<open>A step of the divergence process\<close>

text \<open>
  C5. After a step of the divergence process, \<open>dist\<close> is the Hamming distance of the
  two current sequences. If it is at most 1, \<open>II1\<close> and \<open>II2\<close> are empty. If it
  exceeds 1, \<open>II1\<close> is what \<open>get_IIs\<close> returns for the first lineage with the second
  as donor, and \<open>II2\<close> what it returns, next, in the other direction. The snapshot
  stored under the new step holds these values.
\<close>

theorem Orr_substitute_recomputes_IIs:
  assumes "Orr_substitute blind self w = Some (Inr (self', w'))"
  shows "Genotype_dist (g_seq (pop_current (orr_pop1 self'))) (g_seq (pop_current (orr_pop2 self')))
           = Inr (orr_dist self')
       \<and> (orr_dist self' \<le> 1 \<longrightarrow> orr_II1 self' = Map.empty \<and> orr_II2 self' = Map.empty)
       \<and> (1 < orr_dist self' \<longrightarrow>
            (\<exists>w1 w2. get_IIs (pop_current (orr_pop1 self')) (pop_current (orr_pop2 self')) w1
                        = Inr (orr_II1 self', w2)
                    \<and> get_IIs (pop_current (orr_pop2 self')) (pop_current (orr_pop1 self')) w2
                        = Inr (orr_II2 self', w')))
       \<and> (\<exists>s. orr_history self' (orr_n_steps self') = Some s
                \<and> snap_dist12 s = orr_dist self'
                \<and> snap_II1 s = orr_II1 self' \<and> snap_II2 s = orr_II2 self')"
proof -
  from assms obtain self1 w1 where
    b: "Orr_bookkeeping self1 w1 = Inr (self', w')"
    by (cases rule: Orr_substitute_Some) blast+
  note f = Orr_bookkeeping_fields [OF b]
  from f(6) obtain s where s: "orr_snap self' = Inr s"
    and h: "orr_history self' = (orr_history self1)(orr_n_steps self1 + 1 \<mapsto> s)"
    by blast
  from s have "snap_dist12 s = orr_dist self' \<and> snap_II1 s = orr_II1 self'
      \<and> snap_II2 s = orr_II2 self'"
    by (auto simp: orr_snap_def split: option.splits)
  moreover have "orr_history self' (orr_n_steps self') = Some s"
    by (simp add: h f(4))
  ultimately show ?thesis
    using f(5,7,8) by (simp add: f(1,2)) blast
qed

theorem Orr_substitute_recomputes_IIs_witness:
  "case start_from ''00'' (1 / 2) (fresh_world (\<lambda>k. if k = 2 then 3 / 4 else 1 / 4) (\<lambda>k. k)) of
     Inl e \<Rightarrow> False
   | Inr (self, w1) \<Rightarrow>
       (case Orr_substitute True self w1 of
          Some (Inr (self1, w2)) \<Rightarrow>
            orr_dist self1 = 1 \<and> orr_II1 self1 = Map.empty \<and> orr_II2 self1 = Map.empty
            \<and> (case Orr_substitute True self1 w2 of
                  Some (Inr (self2, w3)) \<Rightarrow>
                    orr_dist self2 = 2
                    \<and> orr_II1 self2 = [0 \<mapsto> CHR ''0''] \<and> orr_II2 self2 = [1 \<mapsto> CHR ''1'']
                    \<and> (\<exists>a b. get_IIs (pop_current (orr_pop1 self2))
                                 (pop_current (orr_pop2 self2)) a = Inr (orr_II1 self2, b))
                | _ \<Rightarrow> False)
        | _ \<Rightarrow> False)"
proof -
  let ?s = "start_from ''00'' (1 / 2) (fresh_world (\<lambda>k. if k = 2 then 3 / 4 else 1 / 4) (\<lambda>k. k))"
  define self w1 where "self = fst (projr ?s)" and "w1 = snd (projr ?s)"
  define self1 w2 where "self1 = fst (projr (the (Orr_substitute True self w1)))"
    and "w2 = snd (projr (the (Orr_substitute True self w1)))"
  define self2 w3 where "self2 = fst (projr (the (Orr_substitute True self1 w2)))"
    and "w3 = snd (projr (the (Orr_substitute True self1 w2)))"
  note defs = self_def w1_def self1_def w2_def self2_def w3_def
  have 0: "?s = Inr (self, w1)"
    by (simp add: defs run_eval)
  have 1: "Orr_substitute True self w1 = Some (Inr (self1, w2))"
    by (simp add: defs run_eval)
  have d1: "orr_dist self1 = 1"
    by (simp add: defs run_eval)
  from Orr_substitute_recomputes_IIs [OF 1] d1
  have i1: "orr_II1 self1 = Map.empty \<and> orr_II2 self1 = Map.empty"
    by simp
  have 2: "Orr_substitute True self1 w2 = Some (Inr (self2, w3))"
    by (simp add: defs run_eval)
  have d2: "orr_dist self2 = 2"
    by (simp add: defs run_eval)
  have i2: "orr_II1 self2 = [0 \<mapsto> CHR ''0''] \<and> orr_II2 self2 = [1 \<mapsto> CHR ''1'']"
    by (simp add: defs run_eval)
  from Orr_substitute_recomputes_IIs [OF 2] d2
  have g2: "\<exists>a b. get_IIs (pop_current (orr_pop1 self2)) (pop_current (orr_pop2 self2)) a
                 = Inr (orr_II1 self2, b)"
    by auto
  show ?thesis
    using g2 by (simp add: 0 1 2 d1 i1 d2 i2)
qed

text \<open>
  C9. A step of the divergence process takes one draw; below 1/2 it substitutes in
  \<open>pop1\<close> and \<open>pop2\<close> is the same afterwards, otherwise it substitutes in
  \<open>pop2\<close> and \<open>pop1\<close> is the same afterwards. The ancestors of both populations
  are unchanged, as \<open>Population.substitute\<close> never changes the ancestor.
\<close>

theorem Orr_substitute_one_population:
  assumes "Orr_substitute blind self w = Some (Inr (self', w'))"
  shows "(rnd_floats w (rnd_pos w) < 1 / 2 \<longrightarrow>
            orr_pop2 self' = orr_pop2 self
            \<and> (\<exists>w1. Population_substitute blind (orr_pop1 self) (w\<lparr>rnd_pos := Suc (rnd_pos w)\<rparr>)
                       = Some (Inr (orr_pop1 self', w1))))
       \<and> (\<not> rnd_floats w (rnd_pos w) < 1 / 2 \<longrightarrow>
            orr_pop1 self' = orr_pop1 self
            \<and> (\<exists>w1. Population_substitute blind (orr_pop2 self) (w\<lparr>rnd_pos := Suc (rnd_pos w)\<rparr>)
                       = Some (Inr (orr_pop2 self', w1))))
       \<and> pop_ancestor (orr_pop1 self') = pop_ancestor (orr_pop1 self)
       \<and> pop_ancestor (orr_pop2 self') = pop_ancestor (orr_pop2 self)
       \<and> (\<forall>pop v pop' v'. Population_substitute blind pop v = Some (Inr (pop', v')) \<longrightarrow>
             pop_ancestor pop' = pop_ancestor pop)"
  using assms
proof (cases rule: Orr_substitute_Some)
  case (1 pop w1)
  note f = Orr_bookkeeping_fields(1,2) [OF 1(3)]
  from f 1(1,2) Population_substitute_fields(1) [OF 1(2)] show ?thesis
    by (auto simp: Population_substitute_fields(1))
next
  case (2 pop w1)
  note f = Orr_bookkeeping_fields(1,2) [OF 2(3)]
  from f 2(1,2) Population_substitute_fields(1) [OF 2(2)] show ?thesis
    by (auto simp: Population_substitute_fields(1))
qed

theorem Orr_substitute_one_population_witness:
  "(case start_from ''00'' (1 / 2) (fresh_world (\<lambda>k. 1 / 4) (\<lambda>k. k)) of
      Inl e \<Rightarrow> False
    | Inr (self, w1) \<Rightarrow>
        (case Orr_substitute True self w1 of
           Some (Inr (self', w')) \<Rightarrow>
             orr_pop2 self' = orr_pop2 self \<and> orr_pop1 self' \<noteq> orr_pop1 self
             \<and> pop_ancestor (orr_pop1 self') = pop_ancestor (orr_pop1 self)
         | _ \<Rightarrow> False))
   \<and> (case start_from ''00'' (1 / 2) (fresh_world (\<lambda>k. if k = 3 then 3 / 4 else 1 / 4) (\<lambda>k. k)) of
        Inl e \<Rightarrow> False
      | Inr (self, w1) \<Rightarrow>
          (case Orr_substitute False self w1 of
             Some (Inr (self', w')) \<Rightarrow>
               orr_pop1 self' = orr_pop1 self \<and> orr_pop2 self' \<noteq> orr_pop2 self
               \<and> pop_ancestor (orr_pop2 self') = pop_ancestor (orr_pop2 self)
           | _ \<Rightarrow> False))"
proof -
  let ?s = "start_from ''00'' (1 / 2) (fresh_world (\<lambda>k. 1 / 4) (\<lambda>k. k))"
  define self w1 where "self = fst (projr ?s)" and "w1 = snd (projr ?s)"
  define self' w' where "self' = fst (projr (the (Orr_substitute True self w1)))"
    and "w' = snd (projr (the (Orr_substitute True self w1)))"
  note defs = self_def w1_def self'_def w'_def
  have 0: "?s = Inr (self, w1)"
    by (simp add: defs run_eval)
  have 1: "Orr_substitute True self w1 = Some (Inr (self', w'))"
    by (simp add: defs run_eval)
  have r: "rnd_floats w1 (rnd_pos w1) < 1 / 2"
    by (simp add: defs run_eval)
  have n: "pop_n_steps (orr_pop1 self') \<noteq> pop_n_steps (orr_pop1 self)"
    by (simp add: defs run_eval)
  from Orr_substitute_one_population [OF 1] r
  have c: "orr_pop2 self' = orr_pop2 self
      \<and> pop_ancestor (orr_pop1 self') = pop_ancestor (orr_pop1 self)"
    by simp
  let ?t = "start_from ''00'' (1 / 2) (fresh_world (\<lambda>k. if k = 3 then 3 / 4 else 1 / 4) (\<lambda>k. k))"
  define self2 w2 where "self2 = fst (projr ?t)" and "w2 = snd (projr ?t)"
  define self2' w2' where "self2' = fst (projr (the (Orr_substitute False self2 w2)))"
    and "w2' = snd (projr (the (Orr_substitute False self2 w2)))"
  note defs2 = self2_def w2_def self2'_def w2'_def
  have 2: "?t = Inr (self2, w2)"
    by (simp add: defs2 run_eval)
  have 3: "Orr_substitute False self2 w2 = Some (Inr (self2', w2'))"
    by (simp add: defs2 run_eval, subst substitute_loop.simps, simp add: run_eval,
        subst substitute_loop.simps, simp add: run_eval)
  have r2: "\<not> rnd_floats w2 (rnd_pos w2) < 1 / 2"
    by (simp add: defs2 run_eval)
  have n2: "pop_n_steps (orr_pop2 self2') \<noteq> pop_n_steps (orr_pop2 self2)"
    by (simp add: defs2 run_eval, subst substitute_loop.simps, simp add: run_eval)
  from Orr_substitute_one_population [OF 3] r2
  have c2: "orr_pop1 self2' = orr_pop1 self2
      \<and> pop_ancestor (orr_pop2 self2') = pop_ancestor (orr_pop2 self2)"
    by simp
  from n have n': "orr_pop1 self' \<noteq> orr_pop1 self" by auto
  from n2 have n2': "orr_pop2 self2' \<noteq> orr_pop2 self2" by auto
  show ?thesis
    by (simp add: 0 1 2 3 c c2 n' n2')
qed

section \<open>Bookkeeping over a run\<close>

lemma Population_init_n_steps:
  "Population_init ancestor w = Inr (pop, w') \<Longrightarrow> pop_n_steps pop = 0"
  by (auto simp: Population_init_def split: if_splits sum.splits option.splits)

lemma Orr_init_books_ok:
  assumes "Orr_init ancestor w = Inr (self, w')"
  shows "orr_books_ok self" and "orr_n_steps self = 0"
  using assms
  by (auto simp: Orr_init_def orr_books_ok_def Let_def Population_init_n_steps
      split: sum.splits if_splits)

lemma Orr_substitute_books_ok:
  assumes "Orr_substitute blind self w = Some (Inr (self', w'))" and "orr_books_ok self"
  shows "orr_books_ok self'" and "orr_n_steps self' = orr_n_steps self + 1"
proof -
  have "orr_books_ok self' \<and> orr_n_steps self' = orr_n_steps self + 1"
    using assms(1)
  proof (cases rule: Orr_substitute_Some)
    case (1 pop w1)
    note f = Orr_bookkeeping_fields [OF 1(3)]
    from f(6) have "dom (orr_history self') = insert (orr_n_steps self + 1) (dom (orr_history self))"
      by auto
    with f(1,2,4) Population_substitute_fields(3) [OF 1(2)] assms(2) show ?thesis
      by (auto simp: orr_books_ok_def)
  next
    case (2 pop w1)
    note f = Orr_bookkeeping_fields [OF 2(3)]
    from f(6) have "dom (orr_history self') = insert (orr_n_steps self + 1) (dom (orr_history self))"
      by auto
    with f(1,2,4) Population_substitute_fields(3) [OF 2(2)] assms(2) show ?thesis
      by (auto simp: orr_books_ok_def)
  qed
  then show "orr_books_ok self'" and "orr_n_steps self' = orr_n_steps self + 1" by simp_all
qed

lemma Orr_run_books_ok:
  "Orr_run flags self w = Some (Inr (self', w')) \<Longrightarrow> orr_books_ok self \<Longrightarrow>
   orr_books_ok self' \<and> orr_n_steps self' = orr_n_steps self + length flags"
proof (induction flags arbitrary: self w)
  case Nil
  then show ?case by simp
next
  case (Cons blind rest)
  from Cons.prems(1) obtain self1 w1 where
    s: "Orr_substitute blind self w = Some (Inr (self1, w1))" and
    r: "Orr_run rest self1 w1 = Some (Inr (self', w'))"
    by (auto split: option.splits sum.splits)
  from Orr_substitute_books_ok [OF s Cons.prems(2)] Cons.IH [OF r] show ?case
    by simp
qed

text \<open>
  C10. After the constructor and any sequence of steps, each in either regime, the
  process's \<open>n_steps\<close> is the sum of the two populations' \<open>n_steps\<close> and the number
  of steps made, the keys of its history are exactly \<open>0, \<dots>, n_steps\<close>, and so every
  \<open>t\<close> of \<open>range(len(history))\<close> is a key, as \<open>get_stats\<close> needs.
\<close>

theorem Orr_run_bookkeeping:
  assumes "Orr_init ancestor w = Inr (self0, w0)"
    and "Orr_run flags self0 w0 = Some (Inr (self', w'))"
  shows "orr_n_steps self' = pop_n_steps (orr_pop1 self') + pop_n_steps (orr_pop2 self')
       \<and> dom (orr_history self') = {0..orr_n_steps self'}
       \<and> orr_n_steps self' = length flags
       \<and> (\<forall>t < card (dom (orr_history self')). orr_history self' t \<noteq> None)"
proof -
  from Orr_run_books_ok [OF assms(2) Orr_init_books_ok(1) [OF assms(1)]]
    Orr_init_books_ok(2) [OF assms(1)]
  have ok: "orr_books_ok self'" and n: "orr_n_steps self' = length flags" by simp_all
  from ok have d: "dom (orr_history self') = {0..orr_n_steps self'}"
    by (simp add: orr_books_ok_def)
  have "\<forall>t < card (dom (orr_history self')). orr_history self' t \<noteq> None"
  proof (intro allI impI)
    fix t assume "t < card (dom (orr_history self'))"
    then have "t \<in> dom (orr_history self')" by (simp add: d)
    then show "orr_history self' t \<noteq> None" by blast
  qed
  with ok n d show ?thesis by (simp add: orr_books_ok_def)
qed

theorem Orr_run_bookkeeping_witness:
  "case make_viable ''00'' (1 / 2) (fresh_world (\<lambda>k. if k = 1 then 3 / 4 else 1 / 4) (\<lambda>k. k)) of
     Inl e \<Rightarrow> False
   | Inr (ancestor, w) \<Rightarrow>
       (case Orr_init ancestor w of
          Inl e \<Rightarrow> False
        | Inr (self0, w0) \<Rightarrow>
            (case Orr_run [False, True] self0 w0 of
               Some (Inr (self', w')) \<Rightarrow>
                 orr_n_steps self' = 2
                 \<and> orr_n_steps self' = pop_n_steps (orr_pop1 self') + pop_n_steps (orr_pop2 self')
                 \<and> dom (orr_history self') = {0..2}
             | _ \<Rightarrow> False))"
proof -
  let ?m = "make_viable ''00'' (1 / 2) (fresh_world (\<lambda>k. if k = 1 then 3 / 4 else 1 / 4) (\<lambda>k. k))"
  define ancestor w where "ancestor = fst (projr ?m)" and "w = snd (projr ?m)"
  define self0 w0 where "self0 = fst (projr (Orr_init ancestor w))"
    and "w0 = snd (projr (Orr_init ancestor w))"
  note defs = ancestor_def w_def self0_def w0_def
  have 0: "?m = Inr (ancestor, w)"
    by (simp add: defs run_eval)
  have 1: "Orr_init ancestor w = Inr (self0, w0)"
    by (simp add: defs run_eval)
  have "\<exists>self' w'. Orr_run [False, True] self0 w0 = Some (Inr (self', w'))"
    by (simp add: defs run_eval, subst substitute_loop.simps, simp add: run_eval,
        subst substitute_loop.simps, simp add: run_eval)
  then obtain self' w' where 2: "Orr_run [False, True] self0 w0 = Some (Inr (self', w'))"
    by blast
  from Orr_run_bookkeeping [OF 1 2]
  have "orr_n_steps self' = 2
      \<and> orr_n_steps self' = pop_n_steps (orr_pop1 self') + pop_n_steps (orr_pop2 self')
      \<and> dom (orr_history self') = {0..2}"
    by auto
  then show ?thesis
    by (simp only: 0 1 2 sum.case prod.case option.case) simp
qed

section \<open>A substitution in the blind regime\<close>

lemma mutate_random_Inr:
  assumes "mutate_random seq w = Inr (m, w1)"
  shows "\<exists>site. site < length seq \<and> site = rnd_ints w (rnd_pos w) mod length seq
           \<and> mutate seq (Site (int site)) = Inr m"
    and "w1 = w\<lparr>rnd_pos := Suc (rnd_pos w)\<rparr>"
  using assms
  by (auto simp: mutate_random_def rnd_randint_def split: if_splits sum.splits)

lemma mutate_random_binary:
  assumes "binary_sequence seq" and "seq \<noteq> []"
  shows "\<exists>m. mutate_random seq w = Inr (m, w\<lparr>rnd_pos := Suc (rnd_pos w)\<rparr>)
           \<and> binary_sequence m \<and> length m = length seq"
proof -
  let ?i = "rnd_ints w (rnd_pos w) mod length seq"
  have i: "?i < length seq" using assms(2) by simp
  have "mutate seq (Site (int ?i)) = Inr (seq[?i := flip_allele (seq ! ?i)])"
    using i assms(1) by (intro mutate_Site_binary binary_sequence_nth)
  then have "mutate_random seq w
      = Inr (seq[?i := flip_allele (seq ! ?i)], w\<lparr>rnd_pos := Suc (rnd_pos w)\<rparr>)"
    using assms(2) by (simp add: mutate_random_def rnd_randint_def)
  then show ?thesis
    using binary_sequence_update [OF assms(1)] by auto
qed

lemma viable_neighbors_loop_binary:
  assumes "binary_sequence (g_seq self)" and "0 \<le> g_p self" and "g_p self \<le> 1"
    and "\<forall>i \<in> set is. i < length (g_seq self)"
  shows "\<exists>r w'. viable_neighbors_loop self is viable w = Inr (r, w')"
  using assms(4)
proof (induction "is" arbitrary: viable w)
  case Nil
  then show ?case by simp
next
  case (Cons i rest)
  have m: "mutate (g_seq self) (Site (int i))
      = Inr ((g_seq self)[i := flip_allele (g_seq self ! i)])"
    using Cons.prems assms(1) by (intro mutate_Site_binary binary_sequence_nth) simp_all
  from Cons.prems have "\<forall>i \<in> set rest. i < length (g_seq self)" by simp
  from Cons.IH [OF this] show ?case
    by (simp add: m Genotype_init_ok [OF assms(2,3)] del: mutate.simps)
qed

lemma get_robustness_binary:
  assumes "binary_sequence (g_seq self)" and "0 \<le> g_p self" and "g_p self \<le> 1"
    and "g_L self = length (g_seq self)" and "g_seq self \<noteq> []"
  shows "\<exists>g' w'. get_robustness self w = Inr (g', w')"
proof (cases "nu_dict w (g_seq self)")
  case (Some v)
  then show ?thesis by (simp add: get_robustness_def)
next
  case None
  have "\<forall>i \<in> set [0..<g_L self]. i < length (g_seq self)"
    by (simp add: assms(4))
  from viable_neighbors_loop_binary [OF assms(1-3) this]
  obtain r w1 where "viable_neighbors_loop self [0..<g_L self] [] w = Inr (r, w1)"
    by blast
  with None assms(4,5) show ?thesis
    by (simp add: get_robustness_def get_viable_neighbors_def Let_def)
qed

lemma get_robustness_fields:
  assumes "get_robustness self w = Inr (g', w')"
  shows "g' = self\<lparr>g_nu := g_nu g'\<rparr>" and "\<exists>nu. g_nu g' = Some nu"
  using assms
  by (auto simp: get_robustness_def Let_def split: option.splits sum.splits if_splits)

lemma get_robustness_memoised:
  "nu_dict w (g_seq self) = Some v \<Longrightarrow> get_robustness self w = Inr (self\<lparr>g_nu := Some v\<rparr>, w)"
  by (simp add: get_robustness_def)

lemma substitute_record_ok:
  assumes "get_robustness (pop_current self) w = Inr (g', w')"
  shows "\<exists>self'. substitute_record self w = Inr (self', w')"
  using assms get_robustness_fields(2) [OF assms]
  by (auto simp: substitute_record_def Genotype_dist_def Let_def)

lemma Genotype_init_nu_dict: "Genotype_init seq p w = Inr (g, w') \<Longrightarrow> nu_dict w' = nu_dict w"
  by (drule Genotype_init_Inr(1)) (rule get_viability_nu_dict)

lemma Population_substitute_blind_eq:
  "Population_substitute True self w =
     (case mutate_random (g_seq (pop_current self)) w of
        Inl e \<Rightarrow> Some (Inl e)
      | Inr (m, w1) \<Rightarrow>
          (case Genotype_init m (pop_p self) w1 of
             Inl e \<Rightarrow> Some (Inl e)
           | Inr (mut, w2) \<Rightarrow>
               Some (substitute_record
                       (if g_viable mut then self\<lparr>pop_current := mut\<rparr> else self) w2)))"
  by (simp add: Population_substitute_def substitute_loop_blind split: sum.splits)

text \<open>
  C6. A call of \<open>Population.substitute\<close> in the blind regime always returns. On a
  population whose current sequence is binary and not empty and whose \<open>p\<close> is a
  probability it raises nothing. When it raises nothing, it has drawn one site of
  \<open>[0, L)\<close>, built the mutant at that site and looked its viability up once; the
  current genotype is the mutant if that is viable and the previous one otherwise, in both
  cases with \<open>nu\<close> set by \<open>get_robustness\<close> (for a previous genotype whose \<open>nu\<close> is
  the memoised one, nothing changes); \<open>n_steps\<close> is one more; \<open>dist\<close> is the
  Hamming distance of the current sequence to the ancestor's; and the history is the old
  one with one entry added under the new \<open>n_steps\<close>. Which site is drawn is the
  generator's choice; its distribution is not part of the model.
\<close>

theorem Population_substitute_blind_step:
  "(\<exists>r. Population_substitute True self w = Some r)
   \<and> (binary_sequence (g_seq (pop_current self)) \<and> g_seq (pop_current self) \<noteq> []
        \<and> g_L (pop_current self) = length (g_seq (pop_current self))
        \<and> g_p (pop_current self) = pop_p self \<and> 0 \<le> pop_p self \<and> pop_p self \<le> 1 \<longrightarrow>
      (\<exists>self' w'. Population_substitute True self w = Some (Inr (self', w'))))
   \<and> (Population_substitute True self w = Some (Inr (self', w')) \<longrightarrow>
      (\<exists>site m mut w2.
          site < length (g_seq (pop_current self))
          \<and> site = rnd_ints w (rnd_pos w) mod length (g_seq (pop_current self))
          \<and> mutate (g_seq (pop_current self)) (Site (int site)) = Inr m
          \<and> Genotype_init m (pop_p self) (w\<lparr>rnd_pos := Suc (rnd_pos w)\<rparr>) = Inr (mut, w2)
          \<and> get_robustness (if g_viable mut then mut else pop_current self) w2
              = Inr (pop_current self', w')
          \<and> pop_current self'
              = (if g_viable mut then mut else pop_current self)\<lparr>g_nu := g_nu (pop_current self')\<rparr>
          \<and> (\<not> g_viable mut \<and> nu_dict w (g_seq (pop_current self)) = g_nu (pop_current self)
                \<and> g_nu (pop_current self) \<noteq> None \<longrightarrow> pop_current self' = pop_current self))
      \<and> pop_n_steps self' = pop_n_steps self + 1
      \<and> Genotype_dist (g_seq (pop_current self')) (g_seq (pop_ancestor self)) = Inr (pop_dist self')
      \<and> (\<exists>nu. g_nu (pop_current self') = Some nu
            \<and> pop_history self' = (pop_history self)(pop_n_steps self + 1 \<mapsto>
                 \<lparr>snap_seq = g_seq (pop_current self'), snap_dist = pop_dist self', snap_nu = nu\<rparr>))
      \<and> pop_ancestor self' = pop_ancestor self \<and> pop_p self' = pop_p self)"
proof (intro conjI impI)
  show "\<exists>r. Population_substitute True self w = Some r"
    by (simp add: Population_substitute_blind_eq split: sum.splits)
next
  let ?c = "pop_current self"
  assume a: "binary_sequence (g_seq ?c) \<and> g_seq ?c \<noteq> [] \<and> g_L ?c = length (g_seq ?c)
        \<and> g_p ?c = pop_p self \<and> 0 \<le> pop_p self \<and> pop_p self \<le> 1"
  let ?w1 = "w\<lparr>rnd_pos := Suc (rnd_pos w)\<rparr>"
  from a mutate_random_binary [of "g_seq ?c" w] obtain m where
    m: "mutate_random (g_seq ?c) w = Inr (m, ?w1)" and
    bm: "binary_sequence m" and lm: "length m = length (g_seq ?c)"
    by blast
  from a obtain mut w2 where g: "Genotype_init m (pop_p self) ?w1 = Inr (mut, w2)"
    by (auto simp: Genotype_init_ok)
  let ?self1 = "if g_viable mut then self\<lparr>pop_current := mut\<rparr> else self"
  have "\<exists>g' w'. get_robustness (pop_current ?self1) w2 = Inr (g', w')"
  proof (cases "g_viable mut")
    case True
    have "\<exists>g' w'. get_robustness mut w2 = Inr (g', w')"
      using a bm lm Genotype_init_Inr(2-4) [OF g] by (intro get_robustness_binary) auto
    with True show ?thesis by simp
  next
    case False
    have "\<exists>g' w'. get_robustness ?c w2 = Inr (g', w')"
      using a by (intro get_robustness_binary) auto
    with False show ?thesis by simp
  qed
  then obtain g' w' where "get_robustness (pop_current ?self1) w2 = Inr (g', w')"
    by blast
  from substitute_record_ok [OF this] obtain self' where
    "substitute_record ?self1 w2 = Inr (self', w')" ..
  then have "Population_substitute True self w = Some (Inr (self', w'))"
    by (simp add: Population_substitute_blind_eq m g)
  then show "\<exists>self' w'. Population_substitute True self w = Some (Inr (self', w'))"
    by blast
next
  let ?c = "pop_current self"
  assume s: "Population_substitute True self w = Some (Inr (self', w'))"
  then obtain m w1 mut w2 where
    m: "mutate_random (g_seq ?c) w = Inr (m, w1)" and
    g: "Genotype_init m (pop_p self) w1 = Inr (mut, w2)" and
    r: "substitute_record (if g_viable mut then self\<lparr>pop_current := mut\<rparr> else self) w2
          = Inr (self', w')"
    by (auto simp: Population_substitute_blind_eq split: sum.splits)
  let ?self1 = "if g_viable mut then self\<lparr>pop_current := mut\<rparr> else self"
  note f = substitute_record_fields [OF r]
  have c1: "pop_current ?self1 = (if g_viable mut then mut else ?c)" by simp
  from mutate_random_Inr [OF m] obtain site where
    site: "site < length (g_seq ?c)" "site = rnd_ints w (rnd_pos w) mod length (g_seq ?c)"
      "mutate (g_seq ?c) (Site (int site)) = Inr m"
    and w1: "w1 = w\<lparr>rnd_pos := Suc (rnd_pos w)\<rparr>"
    by blast
  have rob: "get_robustness (if g_viable mut then mut else ?c) w2 = Inr (pop_current self', w')"
    using f(4) by (simp only: c1)
  have upd: "pop_current self'
      = (if g_viable mut then mut else ?c)\<lparr>g_nu := g_nu (pop_current self')\<rparr>"
    by (rule get_robustness_fields(1) [OF rob])
  have same: "pop_current self' = ?c"
    if "\<not> g_viable mut \<and> nu_dict w (g_seq ?c) = g_nu ?c \<and> g_nu ?c \<noteq> None"
  proof -
    from that obtain v where v: "g_nu ?c = Some v" by auto
    have "nu_dict w2 = nu_dict w"
      using Genotype_init_nu_dict [OF g] by (simp add: w1)
    with that v have "nu_dict w2 (g_seq ?c) = Some v" by simp
    from get_robustness_memoised [OF this] rob that
    have "pop_current self' = ?c\<lparr>g_nu := Some v\<rparr>" by simp
    also have "?c\<lparr>g_nu := Some v\<rparr> = ?c"
      using v by (cases ?c) simp
    finally show ?thesis .
  qed
  show "\<exists>site m mut w2.
          site < length (g_seq ?c)
          \<and> site = rnd_ints w (rnd_pos w) mod length (g_seq ?c)
          \<and> mutate (g_seq ?c) (Site (int site)) = Inr m
          \<and> Genotype_init m (pop_p self) (w\<lparr>rnd_pos := Suc (rnd_pos w)\<rparr>) = Inr (mut, w2)
          \<and> get_robustness (if g_viable mut then mut else ?c) w2 = Inr (pop_current self', w')
          \<and> pop_current self'
              = (if g_viable mut then mut else ?c)\<lparr>g_nu := g_nu (pop_current self')\<rparr>
          \<and> (\<not> g_viable mut \<and> nu_dict w (g_seq ?c) = g_nu ?c
                \<and> g_nu ?c \<noteq> None \<longrightarrow> pop_current self' = ?c)"
    using site g [unfolded w1] rob upd same by blast
  show "pop_n_steps self' = pop_n_steps self + 1"
    using f(3) by (simp split: if_splits)
  show "Genotype_dist (g_seq (pop_current self')) (g_seq (pop_ancestor self)) = Inr (pop_dist self')"
    using f(5) by (simp split: if_splits)
  show "\<exists>nu. g_nu (pop_current self') = Some nu
            \<and> pop_history self' = (pop_history self)(pop_n_steps self + 1 \<mapsto>
                 \<lparr>snap_seq = g_seq (pop_current self'), snap_dist = pop_dist self', snap_nu = nu\<rparr>)"
    using f(6) by (simp split: if_splits)
  show "pop_ancestor self' = pop_ancestor self"
    using f(1) by (simp split: if_splits)
  show "pop_p self' = pop_p self"
    using f(2) by (simp split: if_splits)
qed

theorem Population_substitute_blind_step_witness:
  "(case start_from ''00'' (1 / 2) (fresh_world (\<lambda>k. 1 / 4) (\<lambda>k. k)) of
      Inl e \<Rightarrow> False
    | Inr (self, w1) \<Rightarrow>
        (case Population_substitute True (orr_pop1 self) w1 of
           Some (Inr (pop', w')) \<Rightarrow>
             g_seq (pop_current pop') = ''01'' \<and> pop_n_steps pop' = 1 \<and> pop_dist pop' = 1
             \<and> pop_history pop' 0 = pop_history (orr_pop1 self) 0
             \<and> pop_history pop' 1 = Some \<lparr>snap_seq = ''01'', snap_dist = 1, snap_nu = 1\<rparr>
         | _ \<Rightarrow> False))
   \<and> (case start_from ''00'' (1 / 2) (fresh_world (\<lambda>k. if k = 2 then 3 / 4 else 1 / 4) (\<lambda>k. k)) of
        Inl e \<Rightarrow> False
      | Inr (self, w1) \<Rightarrow>
          (case Population_substitute True (orr_pop1 self) w1 of
             Some (Inr (pop', w')) \<Rightarrow>
               pop_current pop' = pop_current (orr_pop1 self)
               \<and> pop_n_steps pop' = 1 \<and> pop_dist pop' = 0
               \<and> pop_history pop' 0 = pop_history (orr_pop1 self) 0
               \<and> pop_history pop' 1 = Some \<lparr>snap_seq = ''00'', snap_dist = 0, snap_nu = 1 / 2\<rparr>
           | _ \<Rightarrow> False))"
proof -
  let ?s = "start_from ''00'' (1 / 2) (fresh_world (\<lambda>k. 1 / 4) (\<lambda>k. k))"
  define self1 w1 where "self1 = fst (projr ?s)" and "w1 = snd (projr ?s)"
  let ?pop = "orr_pop1 self1"
  define pop' w' where "pop' = fst (projr (the (Population_substitute True ?pop w1)))"
    and "w' = snd (projr (the (Population_substitute True ?pop w1)))"
  note defs = self1_def w1_def pop'_def w'_def
  have 0: "?s = Inr (self1, w1)"
    by (simp add: defs run_eval)
  have h: "binary_sequence (g_seq (pop_current ?pop)) \<and> g_seq (pop_current ?pop) \<noteq> []
      \<and> g_L (pop_current ?pop) = length (g_seq (pop_current ?pop))
      \<and> g_p (pop_current ?pop) = pop_p ?pop \<and> 0 \<le> pop_p ?pop \<and> pop_p ?pop \<le> 1"
    by (simp add: defs run_eval binary_sequence_def)
  from Population_substitute_blind_step [of ?pop w1] h
  have "\<exists>a b. Population_substitute True ?pop w1 = Some (Inr (a, b))"
    by blast
  then have 1: "Population_substitute True ?pop w1 = Some (Inr (pop', w'))"
    by (auto simp: pop'_def w'_def)
  have n: "pop_n_steps ?pop = 0"
    by (simp add: defs run_eval)
  have e: "g_seq (pop_current pop') = ''01''" "pop_dist pop' = 1" "g_nu (pop_current pop') = Some 1"
    by (simp_all add: defs run_eval)
  from Population_substitute_blind_step [of ?pop w1 pop' w'] 1
  have "pop_n_steps pop' = pop_n_steps ?pop + 1
      \<and> (\<exists>nu. g_nu (pop_current pop') = Some nu
            \<and> pop_history pop' = (pop_history ?pop)(pop_n_steps ?pop + 1 \<mapsto>
                 \<lparr>snap_seq = g_seq (pop_current pop'), snap_dist = pop_dist pop', snap_nu = nu\<rparr>))"
    by blast
  with n e
  have c: "pop_n_steps pop' = 1 \<and> pop_history pop' 0 = pop_history ?pop 0
      \<and> pop_history pop' 1 = Some \<lparr>snap_seq = ''01'', snap_dist = 1, snap_nu = 1\<rparr>"
    by auto
  let ?t = "start_from ''00'' (1 / 2) (fresh_world (\<lambda>k. if k = 2 then 3 / 4 else 1 / 4) (\<lambda>k. k))"
  define self2 w2 where "self2 = fst (projr ?t)" and "w2 = snd (projr ?t)"
  let ?pop2 = "orr_pop1 self2"
  define pop2' w2' where "pop2' = fst (projr (the (Population_substitute True ?pop2 w2)))"
    and "w2' = snd (projr (the (Population_substitute True ?pop2 w2)))"
  note defs2 = self2_def w2_def pop2'_def w2'_def
  have 2: "?t = Inr (self2, w2)"
    by (simp add: defs2 run_eval)
  have h2: "binary_sequence (g_seq (pop_current ?pop2)) \<and> g_seq (pop_current ?pop2) \<noteq> []
      \<and> g_L (pop_current ?pop2) = length (g_seq (pop_current ?pop2))
      \<and> g_p (pop_current ?pop2) = pop_p ?pop2 \<and> 0 \<le> pop_p ?pop2 \<and> pop_p ?pop2 \<le> 1"
    by (simp add: defs2 run_eval binary_sequence_def)
  from Population_substitute_blind_step [of ?pop2 w2] h2
  have "\<exists>a b. Population_substitute True ?pop2 w2 = Some (Inr (a, b))"
    by blast
  then have 3: "Population_substitute True ?pop2 w2 = Some (Inr (pop2', w2'))"
    by (auto simp: pop2'_def w2'_def)
  have n2: "pop_n_steps ?pop2 = 0"
    by (simp add: defs2 run_eval)
  have e2: "pop_current pop2' = pop_current ?pop2" "g_seq (pop_current ?pop2) = ''00''"
    "pop_dist pop2' = 0" "g_nu (pop_current pop2') = Some (1 / 2)"
    by (simp_all add: defs2 run_eval)
  from Population_substitute_blind_step [of ?pop2 w2 pop2' w2'] 3
  have "pop_n_steps pop2' = pop_n_steps ?pop2 + 1
      \<and> (\<exists>nu. g_nu (pop_current pop2') = Some nu
            \<and> pop_history pop2' = (pop_history ?pop2)(pop_n_steps ?pop2 + 1 \<mapsto>
                 \<lparr>snap_seq = g_seq (pop_current pop2'), snap_dist = pop_dist pop2', snap_nu = nu\<rparr>))"
    by blast
  with n2 e2
  have c2: "pop_n_steps pop2' = 1 \<and> pop_history pop2' 0 = pop_history ?pop2 0
      \<and> pop_history pop2' 1 = Some \<lparr>snap_seq = ''00'', snap_dist = 0, snap_nu = 1 / 2\<rparr>"
    by auto
  from c e c2 e2 show ?thesis
    by (simp only: 0 1 2 3 sum.case prod.case option.case)
qed

section \<open>Lookups later in a run\<close>







section \<open>Incompatible introgressions\<close>

lemma filter_eq_upt: "filter (\<lambda>j. j = i) [0..<n] = (if i < n then [i] else [])"
  by (induction n) auto

lemma diverged_from_update:
  assumes "i < length r" and "c \<noteq> r ! i"
  shows "get_diverged_sites r (r[i := c])
           = Inr \<lparr>seq1_alleles = [r ! i], seq2_alleles = [c], sites = [i]\<rparr>"
proof -
  have "filter (\<lambda>j. r ! j \<noteq> r[i := c] ! j) [0..<length r] = filter (\<lambda>j. j = i) [0..<length r]"
    using assms by (intro filter_cong refl) (auto simp: nth_list_update)
  then have "filter (\<lambda>j. r ! j \<noteq> r[i := c] ! j) [0..<length r] = [i]"
    using assms(1) by (simp add: filter_eq_upt)
  then show ?thesis
    using assms(1) by (simp add: get_diverged_sites_eq)
qed

lemma Genotype_init_snd:
  "Genotype_init seq p w = Inr (g, w') \<Longrightarrow> w' = snd (get_viability seq p w)"
  by (drule Genotype_init_Inr(1)) simp

lemma get_IIs_loop_inviable:
  assumes "0 \<le> g_p self" and "g_p self \<le> 1"
    and "\<forall>i \<in> set is. i < length (g_seq self) \<and> g_seq self ! i \<noteq> d ! i"
  shows "\<exists>m w'. get_IIs_loop self (map (\<lambda>i. (g_seq self)[i := d ! i]) is) inviable w = Inr (m, w')
           \<and> oracle_grows w w'
           \<and> w' = foldl (\<lambda>v s. snd (get_viability s (g_p self) v)) w
                    (map (\<lambda>i. (g_seq self)[i := d ! i]) is)
           \<and> (\<forall>site \<in> set is. viability_dict w' ((g_seq self)[site := d ! site]) \<noteq> None)
           \<and> (\<forall>site. m site =
                 (if site \<in> set is
                     \<and> viability_dict w' ((g_seq self)[site := d ! site]) = Some False
                  then Some (d ! site) else inviable site))"
  using assms(3)
proof (induction "is" arbitrary: inviable w)
  case Nil
  then show ?case by (simp add: oracle_grows_refl)
next
  case (Cons i rest)
  let ?r = "g_seq self"
  let ?x = "?r[i := d ! i]"
  let ?f = "\<lambda>v s. snd (get_viability s (g_p self) v)"
  from Cons.prems have i: "i < length ?r" "d ! i \<noteq> ?r ! i"
    and rest: "\<forall>i \<in> set rest. i < length ?r \<and> ?r ! i \<noteq> d ! i"
    by auto
  obtain g w1 where g: "Genotype_init ?x (g_p self) w = Inr (g, w1)"
    using Genotype_init_ok [OF assms(1,2)] by blast
  note rec = Genotype_init_recorded [OF g]
  note dv = diverged_from_update [OF i]
  note w1 = Genotype_init_snd [OF g]
  let ?inv = "if g_viable g then inviable else inviable(i \<mapsto> d ! i)"
  from Cons.IH [OF rest, of ?inv w1] obtain m w' where
    l: "get_IIs_loop self (map (\<lambda>i. ?r[i := d ! i]) rest) ?inv w1 = Inr (m, w')" and
    gr: "oracle_grows w1 w'" and
    fo: "w' = foldl ?f w1 (map (\<lambda>i. ?r[i := d ! i]) rest)" and
    en: "\<forall>site \<in> set rest. viability_dict w' (?r[site := d ! site]) \<noteq> None" and
    ch: "\<forall>site. m site =
               (if site \<in> set rest \<and> viability_dict w' (?r[site := d ! site]) = Some False
                then Some (d ! site) else ?inv site)"
    by blast
  have k: "viability_dict w' ?x = Some (g_viable g)"
    using oracle_grows_lookup [OF gr rec] .
  have 1: "get_IIs_loop self (map (\<lambda>i. ?r[i := d ! i]) (i # rest)) inviable w = Inr (m, w')"
    using g l dv by (cases "g_viable g") simp_all
  have 2: "oracle_grows w w'"
    using Genotype_init_grows [OF g] gr by (rule oracle_grows_trans)
  have 3: "w' = foldl ?f w (map (\<lambda>i. ?r[i := d ! i]) (i # rest))"
    using fo w1 by simp
  have 4: "\<forall>site \<in> set (i # rest). viability_dict w' (?r[site := d ! site]) \<noteq> None"
    using en k by simp
  have 5: "\<forall>site. m site =
               (if site \<in> set (i # rest) \<and> viability_dict w' (?r[site := d ! site]) = Some False
                then Some (d ! site) else inviable site)"
    using ch k by (cases "g_viable g") auto
  from 1 2 3 4 5 show ?case by blast
qed

lemma get_IIs_assertions:
  assumes "g_p self \<noteq> g_p donor \<or> g_L self \<noteq> g_L donor \<or> \<not> g_viable self \<or> \<not> g_viable donor
      \<or> length (g_seq self) \<noteq> length (g_seq donor)"
  shows "get_IIs self donor w = Inl AssertionError"
  using assms by (auto simp: get_IIs_def introgress_def)

text \<open>
  C2. \<open>get_IIs\<close> raises AssertionError whenever the two genotypes differ in \<open>p\<close> or
  in length, or one of them is not viable. For two viable genotypes with the same
  \<open>p\<close>, a probability, and binary sequences of the same length, it returns a mapping.
  The state it leaves is the one reached by looking up, in ascending order of the diverged
  sites, the viability of each single-site introgression from the donor; so each of these
  sequences has an entry in the viability mapping afterwards, and every earlier entry is
  kept. The returned mapping holds, for each diverged site whose introgression is recorded
  as inviable, the donor's allele at that site, and nothing else.
\<close>

theorem get_IIs_inviable_introgressions:
  "(g_p self \<noteq> g_p donor \<or> g_L self \<noteq> g_L donor \<or> length (g_seq self) \<noteq> length (g_seq donor)
      \<or> \<not> g_viable self \<or> \<not> g_viable donor \<longrightarrow>
    get_IIs self donor w = Inl AssertionError)
   \<and> (g_p self = g_p donor \<and> g_L self = g_L donor \<and> length (g_seq self) = length (g_seq donor)
        \<and> g_viable self \<and> g_viable donor
        \<and> binary_sequence (g_seq self) \<and> binary_sequence (g_seq donor)
        \<and> 0 \<le> g_p self \<and> g_p self \<le> 1 \<longrightarrow>
      (\<exists>m w'. get_IIs self donor w = Inr (m, w') \<and> oracle_grows w w'
         \<and> w' = foldl (\<lambda>v s. snd (get_viability s (g_p self) v)) w
                  (map (\<lambda>site. (g_seq self)[site := g_seq donor ! site])
                     (filter (\<lambda>site. g_seq self ! site \<noteq> g_seq donor ! site)
                        [0..<length (g_seq self)]))
         \<and> (\<forall>site. site < length (g_seq self) \<and> g_seq self ! site \<noteq> g_seq donor ! site \<longrightarrow>
               viability_dict w' ((g_seq self)[site := g_seq donor ! site]) \<noteq> None)
         \<and> (\<forall>site. m site =
               (if site < length (g_seq self) \<and> g_seq self ! site \<noteq> g_seq donor ! site
                   \<and> viability_dict w' ((g_seq self)[site := g_seq donor ! site]) = Some False
                then Some (g_seq donor ! site) else None))))"
proof (intro conjI impI)
  assume "g_p self \<noteq> g_p donor \<or> g_L self \<noteq> g_L donor
      \<or> length (g_seq self) \<noteq> length (g_seq donor) \<or> \<not> g_viable self \<or> \<not> g_viable donor"
  then show "get_IIs self donor w = Inl AssertionError"
    by (intro get_IIs_assertions) blast
next
  let ?r = "g_seq self" and ?d = "g_seq donor"
  let ?ds = "filter (\<lambda>i. ?r ! i \<noteq> ?d ! i) [0..<length ?r]"
  let ?f = "\<lambda>v s. snd (get_viability s (g_p self) v)"
  assume a: "g_p self = g_p donor \<and> g_L self = g_L donor \<and> length ?r = length ?d
        \<and> g_viable self \<and> g_viable donor \<and> binary_sequence ?r \<and> binary_sequence ?d
        \<and> 0 \<le> g_p self \<and> g_p self \<le> 1"
  then have i: "introgress ?r ?d = Inr (map (\<lambda>i. ?r[i := ?d ! i]) ?ds)"
    by (intro introgress_binary) simp_all
  have "\<forall>i \<in> set ?ds. i < length ?r \<and> ?r ! i \<noteq> ?d ! i" by simp
  from get_IIs_loop_inviable [of self ?ds ?d Map.empty w, OF _ _ this] a
  obtain m w' where
    l: "get_IIs_loop self (map (\<lambda>i. ?r[i := ?d ! i]) ?ds) Map.empty w = Inr (m, w')" and
    gr: "oracle_grows w w'" and
    fo: "w' = foldl ?f w (map (\<lambda>i. ?r[i := ?d ! i]) ?ds)" and
    en: "\<forall>site \<in> set ?ds. viability_dict w' (?r[site := ?d ! site]) \<noteq> None" and
    ch: "\<forall>site. m site =
                 (if site \<in> set ?ds \<and> viability_dict w' (?r[site := ?d ! site]) = Some False
                  then Some (?d ! site) else None)"
    by blast
  have "get_IIs self donor w = Inr (m, w')"
    using a i l by (simp add: get_IIs_def)
  moreover from ch have "\<forall>site. m site =
               (if site < length ?r \<and> ?r ! site \<noteq> ?d ! site
                   \<and> viability_dict w' (?r[site := ?d ! site]) = Some False
                then Some (?d ! site) else None)"
    by simp
  moreover from en have "\<forall>site. site < length ?r \<and> ?r ! site \<noteq> ?d ! site \<longrightarrow>
               viability_dict w' (?r[site := ?d ! site]) \<noteq> None"
    by simp
  ultimately show "\<exists>m w'. get_IIs self donor w = Inr (m, w') \<and> oracle_grows w w'
         \<and> w' = foldl ?f w (map (\<lambda>site. ?r[site := ?d ! site])
                     (filter (\<lambda>site. ?r ! site \<noteq> ?d ! site) [0..<length ?r]))
         \<and> (\<forall>site. site < length ?r \<and> ?r ! site \<noteq> ?d ! site \<longrightarrow>
               viability_dict w' (?r[site := ?d ! site]) \<noteq> None)
         \<and> (\<forall>site. m site =
               (if site < length ?r \<and> ?r ! site \<noteq> ?d ! site
                   \<and> viability_dict w' (?r[site := ?d ! site]) = Some False
                then Some (?d ! site) else None))"
    using gr fo by blast
qed

theorem get_IIs_inviable_introgressions_witness:
  "case Genotype_init ''11'' (1 / 2) (fresh_world (\<lambda>k. if k = 2 then 3 / 4 else 1 / 4) (\<lambda>k. k)) of
     Inl e \<Rightarrow> False
   | Inr (self, w1) \<Rightarrow>
       (case Genotype_init ''00'' (1 / 2) w1 of
          Inl e \<Rightarrow> False
        | Inr (donor, w2) \<Rightarrow>
            (case get_IIs self donor w2 of
               Inl e \<Rightarrow> False
             | Inr (m, w3) \<Rightarrow>
                 m = [0 \<mapsto> CHR ''0''] \<and> oracle_grows w2 w3
                 \<and> viability_dict w2 ''01'' = None \<and> viability_dict w2 ''10'' = None
                 \<and> viability_dict w3 ''01'' = Some False \<and> viability_dict w3 ''10'' = Some True
                 \<and> rnd_pos w3 = rnd_pos w2 + 2)
            \<and> get_IIs self (donor\<lparr>g_viable := False\<rparr>) w2 = Inl AssertionError)"
proof -
  let ?a = "Genotype_init ''11'' (1 / 2) (fresh_world (\<lambda>k. if k = 2 then 3 / 4 else 1 / 4) (\<lambda>k. k))"
  define self w1 where "self = fst (projr ?a)" and "w1 = snd (projr ?a)"
  define donor w2 where "donor = fst (projr (Genotype_init ''00'' (1 / 2) w1))"
    and "w2 = snd (projr (Genotype_init ''00'' (1 / 2) w1))"
  define m w3 where "m = fst (projr (get_IIs self donor w2))"
    and "w3 = snd (projr (get_IIs self donor w2))"
  note defs = self_def w1_def donor_def w2_def m_def w3_def
  have 0: "?a = Inr (self, w1)"
    by (simp add: defs run_eval)
  have 1: "Genotype_init ''00'' (1 / 2) w1 = Inr (donor, w2)"
    by (simp add: defs run_eval)
  have h: "g_p self = g_p donor \<and> g_L self = g_L donor \<and> length (g_seq self) = length (g_seq donor)
        \<and> g_viable self \<and> g_viable donor
        \<and> binary_sequence (g_seq self) \<and> binary_sequence (g_seq donor)
        \<and> 0 \<le> g_p self \<and> g_p self \<le> 1"
    by (simp add: defs run_eval binary_sequence_def)
  from get_IIs_inviable_introgressions [of self donor w2] h
  have "\<exists>a b. get_IIs self donor w2 = Inr (a, b) \<and> oracle_grows w2 b"
    by blast
  then have 2: "get_IIs self donor w2 = Inr (m, w3)" and g: "oracle_grows w2 w3"
    by (auto simp: m_def w3_def)
  have e: "m = [0 \<mapsto> CHR ''0'']" "viability_dict w3 ''01'' = Some False"
    "viability_dict w3 ''10'' = Some True" "viability_dict w2 ''01'' = None"
    "viability_dict w2 ''10'' = None" "rnd_pos w3 = rnd_pos w2 + 2"
    by (simp_all add: defs run_eval)
  from get_IIs_inviable_introgressions [of self "donor\<lparr>g_viable := False\<rparr>" w2]
  have 3: "get_IIs self (donor\<lparr>g_viable := False\<rparr>) w2 = Inl AssertionError"
    by simp
  from g e 3 show ?thesis
    by (simp only: 0 1 2 sum.case prod.case)
qed

end
